theory Spec2Isabelle
  imports Complex_Main
begin

section \<open>Python and NumPy primitives\<close>

text \<open>
  The exceptions the modelled code can raise. A function of the source that can raise
  returns \<open>error + 'a\<close>, with \<open>Inl\<close> for the exception.
\<close>

datatype error =
  TypeError | ValueError | IndexError | RuntimeError | NotImplementedError | AssertionError

definition bindE :: "error + 'a \<Rightarrow> ('a \<Rightarrow> error + 'b) \<Rightarrow> error + 'b" where
  "bindE m f = (case m of Inl e \<Rightarrow> Inl e | Inr x \<Rightarrow> f x)"

text \<open>A \<open>for\<close> loop over a list whose body can raise: the first exception ends the loop.\<close>

fun foldE :: "('a \<Rightarrow> 's \<Rightarrow> error + 's) \<Rightarrow> 'a list \<Rightarrow> 's \<Rightarrow> error + 's" where
  "foldE f [] s = Inr s"
| "foldE f (x # xs) s = (case f x s of Inl e \<Rightarrow> Inl e | Inr s' \<Rightarrow> foldE f xs s')"

fun mapE :: "('a \<Rightarrow> error + 'b) \<Rightarrow> 'a list \<Rightarrow> error + 'b list" where
  "mapE f [] = Inr []"
| "mapE f (x # xs) =
     (case f x of Inl e \<Rightarrow> Inl e
      | Inr y \<Rightarrow> (case mapE f xs of Inl e \<Rightarrow> Inl e | Inr ys \<Rightarrow> Inr (y # ys)))"

text \<open>\<open>range(n)\<close> and \<open>range(a, b)\<close>.\<close>

definition py_range :: "int \<Rightarrow> int list" where
  "py_range n = map int [0..<nat n]"

definition py_range2 :: "int \<Rightarrow> int \<Rightarrow> int list" where
  "py_range2 a b = map (\<lambda>k. a + int k) [0..<nat (b - a)]"

text \<open>
  Indexing \<open>xs[i]\<close> of a list or a one-dimensional array: a negative index counts from
  the end, an index out of range raises \<open>IndexError\<close>.
\<close>

definition getitem :: "'a list \<Rightarrow> int \<Rightarrow> error + 'a" where
  "getitem xs i =
     (if 0 \<le> i \<and> i < int (length xs) then Inr (xs ! nat i)
      else if - int (length xs) \<le> i \<and> i < 0 then Inr (xs ! nat (int (length xs) + i))
      else Inl IndexError)"

text \<open>Slicing \<open>xs[a:b]\<close>: negative bounds count from the end, then both are clamped.\<close>

definition clamp_index :: "nat \<Rightarrow> int \<Rightarrow> nat" where
  "clamp_index n i = (let j = (if i < 0 then int n + i else i) in nat (min (int n) (max 0 j)))"

definition py_slice :: "'a list \<Rightarrow> int \<Rightarrow> int \<Rightarrow> 'a list" where
  "py_slice xs a b =
     (let lo = clamp_index (length xs) a; hi = clamp_index (length xs) b
      in take (hi - lo) (drop lo xs))"

text \<open>Unpacking \<open>a, b = xs[i:i+2]\<close> raises \<open>ValueError\<close> unless the slice has two entries.\<close>

definition unpack2 :: "'a list \<Rightarrow> error + ('a \<times> 'a)" where
  "unpack2 xs = (case xs of [a, b] \<Rightarrow> Inr (a, b) | _ \<Rightarrow> Inl ValueError)"

text \<open>Indexing an array by an integer array, \<open>xs[ids]\<close>.\<close>

definition take_ids :: "'a list \<Rightarrow> int list \<Rightarrow> error + 'a list" where
  "take_ids xs ids = mapE (getitem xs) ids"

text \<open>\<open>pytools.product\<close> of a tuple of integers.\<close>

definition product :: "int list \<Rightarrow> int" where
  "product xs = foldl (*) 1 xs"

text \<open>
  The element types that occur. Double-precision numbers are modelled by the reals
  (\<open>float64\<close>) and by the complex numbers (\<open>complex128\<close>); integers are unbounded.
\<close>

datatype np_dtype = Float64 | Complex128

datatype ndarray = RealArr "real list" | ComplexArr "complex list"

fun arr_dtype :: "ndarray \<Rightarrow> np_dtype" where
  "arr_dtype (RealArr _) = Float64"
| "arr_dtype (ComplexArr _) = Complex128"

fun arr_len :: "ndarray \<Rightarrow> nat" where
  "arr_len (RealArr xs) = length xs"
| "arr_len (ComplexArr xs) = length xs"

text \<open>\<open>np.zeros(n, dtype)\<close>; a negative size raises \<open>ValueError\<close>.\<close>

definition np_zeros :: "int \<Rightarrow> np_dtype \<Rightarrow> error + ndarray" where
  "np_zeros n dt =
     (if n < 0 then Inl ValueError
      else Inr (case dt of Float64 \<Rightarrow> RealArr (replicate (nat n) 0)
                | Complex128 \<Rightarrow> ComplexArr (replicate (nat n) 0)))"

section \<open>The tree\<close>

text \<open>
  The fields of the tree object that the wranglers read. Two-dimensional arrays are
  lists of rows: \<open>box_centers\<close> has one row per dimension, \<open>box_child_ids\<close> one row per
  child slot, and both one column per box.
\<close>

record tree =
  nlevels :: int
  dimensions :: int
  nsources :: int
  ntargets :: int
  nboxes :: int
  root_extent :: real
  level_start_box_nrs :: "int list"
  box_centers :: "real list list"
  box_parent_ids :: "int list"
  box_child_ids :: "int list list"
  box_source_starts :: "int list"
  box_source_counts_nonchild :: "int list"
  box_target_starts :: "int list"
  box_target_counts_nonchild :: "int list"
  user_source_ids :: "int list"
  sorted_target_ids :: "int list"
  sources :: "real list list"
  targets :: "real list list"

section \<open>FMMLibExpansionWrangler: construction and expansion storage\<close>

record wrangler =
  w_tree :: tree
  eqn_letter :: string
  kernel_kwargs :: "complex option"
  level_nterms :: "int list"
  dtype :: np_dtype
  ifgrad :: bool
  dim :: int
  dipole_vec :: "real list list option"
  dp_suffix :: string

text \<open>\<open>reorder_sources\<close> indexes the last axis: every row of a two-dimensional array.\<close>

definition reorder_sources :: "tree \<Rightarrow> 'a list \<Rightarrow> error + 'a list" where
  "reorder_sources t source_array = take_ids source_array (user_source_ids t)"

definition reorder_sources2 :: "tree \<Rightarrow> 'a list list \<Rightarrow> error + 'a list list" where
  "reorder_sources2 t source_array = mapE (\<lambda>row. take_ids row (user_source_ids t)) source_array"

definition reorder_potentials :: "tree \<Rightarrow> 'a list \<Rightarrow> error + 'a list" where
  "reorder_potentials t potentials = take_ids potentials (sorted_target_ids t)"

text \<open>The shape of a two-dimensional array given as a list of rows.\<close>

definition shape2 :: "'a list list \<Rightarrow> int \<times> int" where
  "shape2 m = (int (length m), (case m of [] \<Rightarrow> 0 | r # _ \<Rightarrow> int (length r)))"

text \<open>
  The constructor \<open>__init__\<close>. The callable \<open>fmm_level_to_nterms\<close> and the legacy
  \<open>nterms\<close> are optional arguments; calling the absent callable raises \<open>TypeError\<close>.
  The deprecation warning has no effect on the result.
\<close>

definition init ::
  "tree \<Rightarrow> complex \<Rightarrow> (tree \<Rightarrow> int \<Rightarrow> int) option \<Rightarrow> bool \<Rightarrow> real list list option
     \<Rightarrow> bool \<Rightarrow> int option \<Rightarrow> error + wrangler" where
  "init t helmholtz_k fmm_level_to_nterms ifgrad' dipole_vec' dipoles_already_reordered nterms =
     (if nterms \<noteq> None \<and> fmm_level_to_nterms \<noteq> None then Inl TypeError
      else
        let level_fn = (case nterms of Some n \<Rightarrow> Some (\<lambda>_ _. n) | None \<Rightarrow> fmm_level_to_nterms);
            letter = (if helmholtz_k = 0 then ''l'' else ''h'');
            kwargs = (if helmholtz_k = 0 then None else Some helmholtz_k)
        in bindE (mapE (\<lambda>lev. case level_fn of None \<Rightarrow> Inl TypeError
                                | Some f \<Rightarrow> Inr (f t lev)) (py_range (nlevels t)))
          (\<lambda>orders.
             let w = \<lparr> w_tree = t, eqn_letter = letter, kernel_kwargs = kwargs,
                       level_nterms = orders, dtype = Complex128, ifgrad = ifgrad',
                       dim = dimensions t, dipole_vec = None, dp_suffix = [] \<rparr>
             in case dipole_vec' of
                  None \<Rightarrow> Inr w
                | Some dv \<Rightarrow>
                    if shape2 dv \<noteq> (dimensions t, nsources t) then Inl AssertionError
                    else bindE (if dipoles_already_reordered then Inr dv
                                else reorder_sources2 t dv)
                           (\<lambda>dv'. Inr (w\<lparr> dipole_vec := Some dv', dp_suffix := ''_dp'' \<rparr>))))"

definition expansion_shape :: "wrangler \<Rightarrow> int \<Rightarrow> error + int list" where
  "expansion_shape w nterms =
     (if dim w = 2 \<and> eqn_letter w = ''l'' then Inr [nterms + 1]
      else if dim w = 2 \<and> eqn_letter w = ''h'' then Inr [2 * nterms + 1]
      else if dim w = 3 then Inr [2 * nterms + 1, nterms + 1]
      else Inl ValueError)"

text \<open>
  \<open>_expansions_level_starts\<close>: the running sum of the per-level region sizes. The body
  reads \<open>level_start_box_nrs[lev+1]\<close>, then \<open>level_start_box_nrs[lev]\<close>, then
  \<open>level_nterms[lev]\<close>.
\<close>

definition level_starts_step ::
  "wrangler \<Rightarrow> (int \<Rightarrow> error + int) \<Rightarrow> int \<Rightarrow> int list \<Rightarrow> error + int list" where
  "level_starts_step w order_to_size lev result =
     bindE (getitem (level_start_box_nrs (w_tree w)) (lev + 1)) (\<lambda>hi.
     bindE (getitem (level_start_box_nrs (w_tree w)) lev) (\<lambda>lo.
     bindE (getitem (level_nterms w) lev) (\<lambda>order.
     bindE (order_to_size order) (\<lambda>expn_size.
     bindE (getitem result (-1)) (\<lambda>prev.
       Inr (result @ [prev + expn_size * (hi - lo)]))))))"

definition expansions_level_starts ::
  "wrangler \<Rightarrow> (int \<Rightarrow> error + int) \<Rightarrow> error + int list" where
  "expansions_level_starts w order_to_size =
     foldE (level_starts_step w order_to_size) (py_range (nlevels (w_tree w))) [0]"

definition expansion_size :: "wrangler \<Rightarrow> int \<Rightarrow> error + int" where
  "expansion_size w nterms = bindE (expansion_shape w nterms) (\<lambda>shp. Inr (product shp))"

definition multipole_expansions_level_starts :: "wrangler \<Rightarrow> error + int list" where
  "multipole_expansions_level_starts w = expansions_level_starts w (expansion_size w)"

definition local_expansions_level_starts :: "wrangler \<Rightarrow> error + int list" where
  "local_expansions_level_starts w = expansions_level_starts w (expansion_size w)"

text \<open>
  The size of the region of one level as the specification words it: the coefficient
  count at the level's order times the number of boxes of the level.
\<close>

definition region_size :: "wrangler \<Rightarrow> (int \<Rightarrow> error + int) \<Rightarrow> nat \<Rightarrow> int" where
  "region_size w order_to_size lev =
     (case order_to_size (level_nterms w ! lev) of
        Inl _ \<Rightarrow> 0
      | Inr expn_size \<Rightarrow> expn_size *
          (level_start_box_nrs (w_tree w) ! Suc lev - level_start_box_nrs (w_tree w) ! lev))"

text \<open>
  Well-formed level data: the tree lists a box range for every level, box numbers do
  not decrease from one level to the next, every level has an order, and the
  coefficient count of that order is defined and not negative.
\<close>

definition level_data_ok :: "wrangler \<Rightarrow> (int \<Rightarrow> error + int) \<Rightarrow> bool" where
  "level_data_ok w order_to_size =
     (\<forall>lev < nat (nlevels (w_tree w)).
        Suc lev < length (level_start_box_nrs (w_tree w)) \<and> lev < length (level_nterms w) \<and>
        level_start_box_nrs (w_tree w) ! lev \<le> level_start_box_nrs (w_tree w) ! Suc lev \<and>
        (case order_to_size (level_nterms w ! lev) of Inl _ \<Rightarrow> False | Inr sz \<Rightarrow> 0 \<le> sz))"

section \<open>A small tree for the examples\<close>

text \<open>
  Ten particles on a line inside a two-dimensional root box of extent 8. The root (box
  0) has the children 1 and 2; box 1 has the children 3 and 4, box 2 the children 5 and
  6; box 3 has the children 7 and 8, box 6 the children 9 and 10. The leaves, from left
  to right, are 7, 8, 4, 5, 9, 10 and hold 2, 1, 3, 1, 2 and 1 particles. Sources and
  targets are the same particles.
\<close>

definition example_tree :: tree where
  "example_tree = \<lparr>
     nlevels = 4, dimensions = 2, nsources = 10, ntargets = 10, nboxes = 11,
     root_extent = 8,
     level_start_box_nrs = [0, 1, 3, 7, 11],
     box_centers = [[4, 2, 6, 1, 3, 5, 7, 1/2, 3/2, 13/2, 15/2],
                    [4, 2, 2, 1, 1, 1, 1, 1/2, 1/2, 1/2, 1/2]],
     box_parent_ids = [0, 0, 0, 1, 1, 2, 2, 3, 3, 6, 6],
     box_child_ids = [[1, 3, 5, 7, 0, 0, 9, 0, 0, 0, 0],
                      [2, 4, 6, 8, 0, 0, 10, 0, 0, 0, 0],
                      [0, 0, 0, 0, 0, 0, 0, 0, 0, 0, 0],
                      [0, 0, 0, 0, 0, 0, 0, 0, 0, 0, 0]],
     box_source_starts = [0, 0, 6, 0, 3, 6, 7, 0, 2, 7, 9],
     box_source_counts_nonchild = [0, 0, 0, 0, 3, 1, 0, 2, 1, 2, 1],
     box_target_starts = [0, 0, 6, 0, 3, 6, 7, 0, 2, 7, 9],
     box_target_counts_nonchild = [0, 0, 0, 0, 3, 1, 0, 2, 1, 2, 1],
     user_source_ids = [3, 0, 1, 2, 5, 4, 7, 6, 9, 8],
     sorted_target_ids = [1, 2, 3, 0, 5, 4, 7, 6, 9, 8],
     sources = [[1/4, 3/4, 3/2, 9/4, 3, 7/2, 9/2, 25/4, 13/2, 15/2],
                [1/4, 1/4, 1/4, 1/4, 1/4, 1/4, 1/4, 1/4, 1/4, 1/4]],
     targets = [[1/4, 3/4, 3/2, 9/4, 3, 7/2, 9/2, 25/4, 13/2, 15/2],
                [1/4, 1/4, 1/4, 1/4, 1/4, 1/4, 1/4, 1/4, 1/4, 1/4]] \<rparr>"

text \<open>A two-dimensional Laplace wrangler on it, with the orders 2, 2, 3, 3.\<close>

definition example_wrangler :: wrangler where
  "example_wrangler = \<lparr>
     w_tree = example_tree, eqn_letter = ''l'', kernel_kwargs = None,
     level_nterms = [2, 2, 3, 3], dtype = Complex128, ifgrad = False, dim = 2,
     dipole_vec = None, dp_suffix = [] \<rparr>"


section \<open>Output finalization\<close>

text \<open>\<open>potential.real\<close> and \<open>potential * scale_factor\<close> on arrays.\<close>

fun np_real :: "ndarray \<Rightarrow> ndarray" where
  "np_real (RealArr xs) = RealArr xs"
| "np_real (ComplexArr zs) = RealArr (map Re zs)"

fun np_mul_scalar :: "ndarray \<Rightarrow> real \<Rightarrow> ndarray" where
  "np_mul_scalar (RealArr xs) c = RealArr (map (\<lambda>x. x * c) xs)"
| "np_mul_scalar (ComplexArr zs) c = ComplexArr (map (\<lambda>z. z * of_real c) zs)"

definition scale_factor :: "wrangler \<Rightarrow> error + real" where
  "scale_factor w =
     (if eqn_letter w = ''l'' \<and> dim w = 2 then Inr (- 1 / (2 * pi))
      else if eqn_letter w = ''h'' \<and> dim w = 2 then Inr 1
      else if eqn_letter w \<in> {''l'', ''h''} \<and> dim w = 3 then Inr (1 / (4 * pi))
      else Inl NotImplementedError)"

definition finalize_potentials :: "wrangler \<Rightarrow> ndarray \<Rightarrow> error + ndarray" where
  "finalize_potentials w potential =
     bindE (scale_factor w) (\<lambda>c.
       let potential' = (if eqn_letter w = ''l'' \<and> dim w = 2 then np_real potential
                         else potential)
       in Inr (np_mul_scalar potential' c))"

text \<open>
  The same method over a store of arrays, to speak about what it writes. The store is
  the list of all arrays allocated so far; an address is a position in it. An array
  object is a whole allocated array or the view \<open>.real\<close> of one: taking the real part
  of a complex array shares its memory, of a real array gives the array back. The
  product with the scale factor is a new array, allocated at the end of the store.
\<close>

type_synonym heap = "ndarray list"

datatype array_ref = Whole nat | RealView nat

fun heap_read :: "heap \<Rightarrow> array_ref \<Rightarrow> ndarray" where
  "heap_read h (Whole a) = h ! a"
| "heap_read h (RealView a) = np_real (h ! a)"

fun ref_addr :: "array_ref \<Rightarrow> nat" where
  "ref_addr (Whole a) = a"
| "ref_addr (RealView a) = a"

fun real_view :: "heap \<Rightarrow> array_ref \<Rightarrow> array_ref" where
  "real_view h (Whole a) = (case h ! a of RealArr _ \<Rightarrow> Whole a | ComplexArr _ \<Rightarrow> RealView a)"
| "real_view h (RealView a) = RealView a"

definition heap_alloc :: "heap \<Rightarrow> ndarray \<Rightarrow> heap \<times> array_ref" where
  "heap_alloc h v = (h @ [v], Whole (length h))"

definition finalize_potentials_heap ::
  "wrangler \<Rightarrow> heap \<Rightarrow> array_ref \<Rightarrow> error + (heap \<times> array_ref)" where
  "finalize_potentials_heap w h potential =
     bindE (scale_factor w) (\<lambda>c.
       let potential' = (if eqn_letter w = ''l'' \<and> dim w = 2 then real_view h potential
                         else potential)
       in Inr (heap_alloc h (np_mul_scalar (heap_read h potential') c)))"

section \<open>Allocation of the expansion buffers\<close>

definition multipole_expansion_zeros :: "wrangler \<Rightarrow> error + ndarray" where
  "multipole_expansion_zeros w =
     bindE (multipole_expansions_level_starts w) (\<lambda>starts.
     bindE (getitem starts (-1)) (\<lambda>n. np_zeros n (dtype w)))"

definition local_expansion_zeros :: "wrangler \<Rightarrow> error + ndarray" where
  "local_expansion_zeros w =
     bindE (local_expansions_level_starts w) (\<lambda>starts.
     bindE (getitem starts (-1)) (\<lambda>n. np_zeros n (dtype w)))"

text \<open>Arguments for the constructor in the examples: the orders 2, 2, 3, 3.\<close>

definition example_level_to_nterms :: "tree \<Rightarrow> int \<Rightarrow> int" where
  "example_level_to_nterms t lev = (if lev < 2 then 2 else 3)"

text \<open>
  A tree with targets that are not its sources: the ten sources of the example tree and
  three targets, one in each of the boxes 7, 4 and 10.
\<close>

definition separate_targets_tree :: tree where
  "separate_targets_tree = example_tree \<lparr>
     ntargets := 3,
     box_target_starts := [0, 0, 2, 0, 1, 2, 2, 0, 1, 2, 2],
     box_target_counts_nonchild := [0, 0, 0, 0, 1, 0, 0, 1, 0, 0, 1],
     sorted_target_ids := [2, 0, 1],
     targets := [[1/2, 5/2, 31/4], [1/4, 1/4, 1/4]] \<rparr>"

text \<open>
  The trees on which the two reorderings undo each other: \<open>sorted_target_ids\<close> lists,
  for every particle in user order, its position in tree order, and \<open>user_source_ids\<close>
  lists, for every position in tree order, the particle in user order found there.
\<close>

definition targets_are_sources :: "tree \<Rightarrow> nat \<Rightarrow> bool" where
  "targets_are_sources t n =
     (length (user_source_ids t) = n \<and> length (sorted_target_ids t) = n \<and>
      (\<forall>i < n. 0 \<le> user_source_ids t ! i \<and> user_source_ids t ! i < int n) \<and>
      (\<forall>j < n. 0 \<le> sorted_target_ids t ! j \<and> sorted_target_ids t ! j < int n \<and>
                user_source_ids t ! nat (sorted_target_ids t ! j) = int j))"

section \<open>ConstantOneExpansionWrangler\<close>

text \<open>
  The reference wrangler of the test suite, for a kernel that is 1 everywhere. Its
  methods carry the prefix \<open>c1\<close> here. An expansion is one number per box, a potential
  one number per target; \<open>float64\<close> is modelled by the reals.
\<close>

text \<open>\<open>range(a, b, -1)\<close>.\<close>

definition py_range_down :: "int \<Rightarrow> int \<Rightarrow> int list" where
  "py_range_down a b = map (\<lambda>k. a - int k) [0..<nat (a - b)]"

text \<open>The position that a valid index \<open>i\<close> denotes in an array of length \<open>n\<close>.\<close>

definition index_nat :: "nat \<Rightarrow> int \<Rightarrow> nat" where
  "index_nat n i = nat (if i < 0 then int n + i else i)"

text \<open>\<open>xs[i] += v\<close> on a one-dimensional array.\<close>

definition additem :: "real list \<Rightarrow> int \<Rightarrow> real \<Rightarrow> error + real list" where
  "additem xs i v =
     bindE (getitem xs i) (\<lambda>old. Inr (xs[index_nat (length xs) i := old + v]))"

text \<open>\<open>xs[a:b] = v\<close> and \<open>xs[a:b] += v\<close> for a number \<open>v\<close>.\<close>

definition set_slice :: "real list \<Rightarrow> int \<Rightarrow> int \<Rightarrow> real \<Rightarrow> real list" where
  "set_slice xs a b v =
     (let lo = clamp_index (length xs) a; hi = clamp_index (length xs) b
      in map (\<lambda>k. if lo \<le> k \<and> k < hi then v else xs ! k) [0..<length xs])"

definition add_slice :: "real list \<Rightarrow> int \<Rightarrow> int \<Rightarrow> real \<Rightarrow> real list" where
  "add_slice xs a b v =
     (let lo = clamp_index (length xs) a; hi = clamp_index (length xs) b
      in map (\<lambda>k. if lo \<le> k \<and> k < hi then xs ! k + v else xs ! k) [0..<length xs])"

text \<open>The column \<open>m[:, j]\<close> of a two-dimensional array.\<close>

definition column :: "'a list list \<Rightarrow> int \<Rightarrow> error + 'a list" where
  "column m j = mapE (\<lambda>row. getitem row j) m"

text \<open>\<open>enumerate(xs)\<close>.\<close>

definition enumerate_py :: "'a list \<Rightarrow> (int \<times> 'a) list" where
  "enumerate_py xs = zip (map int [0..<length xs]) xs"

definition c1_expansion_zeros :: "tree \<Rightarrow> error + real list" where
  "c1_expansion_zeros t =
     (if nboxes t < 0 then Inl ValueError else Inr (replicate (nat (nboxes t)) 0))"

definition c1_potential_zeros :: "tree \<Rightarrow> error + real list" where
  "c1_potential_zeros t =
     (if ntargets t < 0 then Inl ValueError else Inr (replicate (nat (ntargets t)) 0))"

definition get_source_slice :: "tree \<Rightarrow> int \<Rightarrow> error + (int \<times> int)" where
  "get_source_slice t ibox =
     bindE (getitem (box_source_starts t) ibox) (\<lambda>pstart.
     bindE (getitem (box_source_counts_nonchild t) ibox) (\<lambda>cnt. Inr (pstart, pstart + cnt)))"

definition c1_get_target_slice :: "tree \<Rightarrow> int \<Rightarrow> error + (int \<times> int)" where
  "c1_get_target_slice t ibox =
     bindE (getitem (box_target_starts t) ibox) (\<lambda>pstart.
     bindE (getitem (box_target_counts_nonchild t) ibox) (\<lambda>cnt. Inr (pstart, pstart + cnt)))"

text \<open>\<open>np.sum(src_weights[pslice])\<close> for the source slice of a box.\<close>

definition c1_box_weight :: "tree \<Rightarrow> real list \<Rightarrow> int \<Rightarrow> error + real" where
  "c1_box_weight t src_weights ibox =
     bindE (get_source_slice t ibox) (\<lambda>(a, b). Inr (sum_list (py_slice src_weights a b)))"

definition c1_form_multipoles ::
  "tree \<Rightarrow> int list \<Rightarrow> int list \<Rightarrow> real list \<Rightarrow> error + real list" where
  "c1_form_multipoles t level_start_source_box_nrs source_boxes src_weights =
     bindE (c1_expansion_zeros t) (\<lambda>mpoles.
       foldE (\<lambda>ibox mpoles.
                bindE (c1_box_weight t src_weights ibox) (\<lambda>s. additem mpoles ibox s))
         source_boxes mpoles)"

text \<open>The body of the loop over the children of a box: \<open>mpoles[ibox] += mpoles[child]\<close>.\<close>

definition c1_coarsen_child :: "int \<Rightarrow> int \<Rightarrow> real list \<Rightarrow> error + real list" where
  "c1_coarsen_child ibox child mpoles =
     (if child \<noteq> 0 then bindE (getitem mpoles child) (\<lambda>v. additem mpoles ibox v)
      else Inr mpoles)"

definition c1_coarsen_box :: "tree \<Rightarrow> int \<Rightarrow> real list \<Rightarrow> error + real list" where
  "c1_coarsen_box t ibox mpoles =
     bindE (column (box_child_ids t) ibox) (\<lambda>children.
       foldE (c1_coarsen_child ibox) children mpoles)"

definition c1_coarsen_level ::
  "tree \<Rightarrow> int list \<Rightarrow> int list \<Rightarrow> int \<Rightarrow> real list \<Rightarrow> error + real list" where
  "c1_coarsen_level t level_start_source_parent_box_nrs source_parent_boxes source_level mpoles =
     (let target_level = source_level - 1
      in bindE (unpack2 (py_slice level_start_source_parent_box_nrs target_level (target_level + 2)))
           (\<lambda>(start, stop).
              foldE (c1_coarsen_box t) (py_slice source_parent_boxes start stop) mpoles))"

definition c1_coarsen_multipoles ::
  "tree \<Rightarrow> int list \<Rightarrow> int list \<Rightarrow> real list \<Rightarrow> error + real list" where
  "c1_coarsen_multipoles t level_start_source_parent_box_nrs source_parent_boxes mpoles =
     foldE (c1_coarsen_level t level_start_source_parent_box_nrs source_parent_boxes)
       (py_range_down (nlevels t - 1) 2) mpoles"

text \<open>
  The sum over one interaction list: \<open>starts[i:i+2]\<close> bounds the entries of \<open>lists\<close>
  that belong to entry \<open>i\<close>, and \<open>val\<close> gives the contribution of a listed box.
\<close>

definition csr_sum ::
  "int list \<Rightarrow> int list \<Rightarrow> int \<Rightarrow> (int \<Rightarrow> error + real) \<Rightarrow> error + real" where
  "csr_sum starts lists' i val =
     bindE (unpack2 (py_slice starts i (i + 2))) (\<lambda>(start, end).
       foldE (\<lambda>src_ibox acc. bindE (val src_ibox) (\<lambda>v. Inr (acc + v)))
         (py_slice lists' start end) 0)"

definition c1_eval_direct ::
  "tree \<Rightarrow> int list \<Rightarrow> int list \<Rightarrow> int list \<Rightarrow> real list \<Rightarrow> error + real list" where
  "c1_eval_direct t target_boxes neighbor_sources_starts neighbor_sources_lists src_weights =
     bindE (c1_potential_zeros t) (\<lambda>pot.
       foldE (\<lambda>(itgt_box, tgt_ibox) pot.
                bindE (c1_get_target_slice t tgt_ibox) (\<lambda>(a, b).
                bindE (csr_sum neighbor_sources_starts neighbor_sources_lists itgt_box
                         (c1_box_weight t src_weights)) (\<lambda>src_sum.
                  Inr (set_slice pot a b src_sum))))
         (enumerate_py target_boxes) pot)"

definition c1_multipole_to_local ::
  "tree \<Rightarrow> int list \<Rightarrow> int list \<Rightarrow> int list \<Rightarrow> int list \<Rightarrow> real list \<Rightarrow> error + real list" where
  "c1_multipole_to_local t level_start_target_or_target_parent_box_nrs
       target_or_target_parent_boxes starts lists' mpole_exps =
     bindE (c1_expansion_zeros t) (\<lambda>local_exps.
       foldE (\<lambda>(itgt_box, tgt_ibox) local_exps.
                bindE (csr_sum starts lists' itgt_box (getitem mpole_exps)) (\<lambda>contrib.
                  additem local_exps tgt_ibox contrib))
         (enumerate_py target_or_target_parent_boxes) local_exps)"

text \<open>One entry of \<open>from_sep_smaller_nonsiblings_by_level\<close>: its \<open>starts\<close> and \<open>lists\<close>.\<close>

record csr_list =
  csr_starts :: "int list"
  csr_lists :: "int list"

definition c1_eval_multipoles ::
  "tree \<Rightarrow> int list list \<Rightarrow> csr_list list \<Rightarrow> real list \<Rightarrow> error + real list" where
  "c1_eval_multipoles t target_boxes_by_source_level from_sep_smaller_nonsiblings_by_level
       mpole_exps =
     bindE (c1_potential_zeros t) (\<lambda>pot.
       foldE (\<lambda>(level, ssn) pot.
                bindE (getitem target_boxes_by_source_level level) (\<lambda>target_boxes.
                  foldE (\<lambda>(itgt_box, tgt_ibox) pot.
                           bindE (c1_get_target_slice t tgt_ibox) (\<lambda>(a, b).
                           bindE (csr_sum (csr_starts ssn) (csr_lists ssn) itgt_box (getitem mpole_exps))
                             (\<lambda>contrib. Inr (add_slice pot a b contrib))))
                    (enumerate_py target_boxes) pot))
         (enumerate_py from_sep_smaller_nonsiblings_by_level) pot)"

definition c1_form_locals ::
  "tree \<Rightarrow> int list \<Rightarrow> int list \<Rightarrow> int list \<Rightarrow> int list \<Rightarrow> real list \<Rightarrow> error + real list" where
  "c1_form_locals t level_start_target_or_target_parent_box_nrs
       target_or_target_parent_boxes starts lists' src_weights =
     bindE (c1_expansion_zeros t) (\<lambda>local_exps.
       foldE (\<lambda>(itgt_box, tgt_ibox) local_exps.
                bindE (csr_sum starts lists' itgt_box (c1_box_weight t src_weights)) (\<lambda>contrib.
                  additem local_exps tgt_ibox contrib))
         (enumerate_py target_or_target_parent_boxes) local_exps)"

text \<open>The body of the loop over the boxes of one level:
  \<open>local_exps[ibox] += local_exps[box_parent_ids[ibox]]\<close>.\<close>

definition c1_refine_box :: "tree \<Rightarrow> int \<Rightarrow> real list \<Rightarrow> error + real list" where
  "c1_refine_box t ibox local_exps =
     bindE (getitem (box_parent_ids t) ibox) (\<lambda>parent.
     bindE (getitem local_exps parent) (\<lambda>v. additem local_exps ibox v))"

definition c1_refine_level ::
  "tree \<Rightarrow> int list \<Rightarrow> int list \<Rightarrow> int \<Rightarrow> real list \<Rightarrow> error + real list" where
  "c1_refine_level t level_start_target_or_target_parent_box_nrs target_or_target_parent_boxes
       target_lev local_exps =
     bindE (unpack2 (py_slice level_start_target_or_target_parent_box_nrs target_lev (target_lev + 2)))
       (\<lambda>(start, stop).
          foldE (c1_refine_box t) (py_slice target_or_target_parent_boxes start stop) local_exps)"

definition c1_refine_locals ::
  "tree \<Rightarrow> int list \<Rightarrow> int list \<Rightarrow> real list \<Rightarrow> error + real list" where
  "c1_refine_locals t level_start_target_or_target_parent_box_nrs target_or_target_parent_boxes
       local_exps =
     foldE (c1_refine_level t level_start_target_or_target_parent_box_nrs
              target_or_target_parent_boxes)
       (py_range2 1 (nlevels t)) local_exps"

definition c1_eval_locals ::
  "tree \<Rightarrow> int list \<Rightarrow> int list \<Rightarrow> real list \<Rightarrow> error + real list" where
  "c1_eval_locals t level_start_target_box_nrs target_boxes local_exps =
     bindE (c1_potential_zeros t) (\<lambda>pot.
       foldE (\<lambda>ibox pot.
                bindE (c1_get_target_slice t ibox) (\<lambda>(a, b).
                bindE (getitem local_exps ibox) (\<lambda>v. Inr (add_slice pot a b v))))
         target_boxes pot)"

definition c1_finalize_potentials :: "real list \<Rightarrow> real list" where
  "c1_finalize_potentials potentials = potentials"

section \<open>Levels and ancestors\<close>

text \<open>Box \<open>b\<close> lies in the box range of level \<open>lev\<close>.\<close>

definition in_level :: "tree \<Rightarrow> nat \<Rightarrow> int \<Rightarrow> bool" where
  "in_level t lev b =
     (level_start_box_nrs t ! lev \<le> b \<and> b < level_start_box_nrs t ! Suc lev)"

text \<open>
  The level ranges of a tree are well formed: one range per level, starting at box 0,
  not decreasing, and inside the box numbers.
\<close>

definition tree_levels_ok :: "tree \<Rightarrow> bool" where
  "tree_levels_ok t =
     (nat (nlevels t) < length (level_start_box_nrs t) \<and>
      level_start_box_nrs t ! 0 = 0 \<and>
      (\<forall>lev < nat (nlevels t). level_start_box_nrs t ! lev \<le> level_start_box_nrs t ! Suc lev) \<and>
      level_start_box_nrs t ! nat (nlevels t) \<le> nboxes t)"

text \<open>The boxes that a per-level box list holds for level \<open>lev\<close>.\<close>

definition level_boxes :: "int list \<Rightarrow> int list \<Rightarrow> nat \<Rightarrow> int list" where
  "level_boxes level_starts boxes lev =
     py_slice boxes (level_starts ! lev) (level_starts ! Suc lev)"

text \<open>The sum of \<open>exps\<close> over a box and its \<open>k\<close> nearest ancestors.\<close>

fun ancestor_sum :: "tree \<Rightarrow> real list \<Rightarrow> int \<Rightarrow> nat \<Rightarrow> real" where
  "ancestor_sum t exps b 0 = exps ! nat b"
| "ancestor_sum t exps b (Suc k) =
     exps ! nat b + ancestor_sum t exps (box_parent_ids t ! nat b) k"

text \<open>
  What \<open>refine_locals\<close> needs of its box list: for every level from 1 on, the list names
  a range of boxes of that level, each once, whose parents are boxes of the level
  above; and from level 2 on the parent of a listed box is listed at its own level.
\<close>

definition refine_ok :: "tree \<Rightarrow> int list \<Rightarrow> int list \<Rightarrow> bool" where
  "refine_ok t level_starts boxes =
     (tree_levels_ok t \<and> nat (nboxes t) \<le> length (box_parent_ids t) \<and>
      nat (nlevels t) < length level_starts \<and>
      (\<forall>lev. 1 \<le> lev \<and> lev < nat (nlevels t) \<longrightarrow>
         distinct (level_boxes level_starts boxes lev) \<and>
         (\<forall>b \<in> set (level_boxes level_starts boxes lev).
            in_level t lev b \<and> in_level t (lev - 1) (box_parent_ids t ! nat b) \<and>
            (2 \<le> lev \<longrightarrow>
               box_parent_ids t ! nat b \<in> set (level_boxes level_starts boxes (lev - 1))))))"

section \<open>The traversal\<close>

text \<open>
  The interaction lists that the passes receive, as one record: the source boxes, the
  source parent boxes and the target boxes with their per-level starts, the neighbour
  lists of the target boxes, the lists of well-separated siblings' children and of
  bigger separated boxes of the target-or-target-parent boxes, and the per-level lists
  of smaller separated boxes.
\<close>

record traversal =
  trav_level_start_source_box_nrs :: "int list"
  trav_source_boxes :: "int list"
  trav_level_start_source_parent_box_nrs :: "int list"
  trav_source_parent_boxes :: "int list"
  trav_level_start_target_box_nrs :: "int list"
  trav_target_boxes :: "int list"
  trav_level_start_target_or_target_parent_box_nrs :: "int list"
  trav_target_or_target_parent_boxes :: "int list"
  trav_neighbor_sources_starts :: "int list"
  trav_neighbor_sources_lists :: "int list"
  trav_sep_siblings_starts :: "int list"
  trav_sep_siblings_lists :: "int list"
  trav_target_boxes_by_source_level :: "int list list"
  trav_sep_smaller_by_level :: "csr_list list"
  trav_sep_bigger_starts :: "int list"
  trav_sep_bigger_lists :: "int list"

text \<open>
  The lists of the example tree. Boxes next to each other are neighbours; boxes 3 and 4
  are well separated from 5 and 6 as far as they do not touch; leaf 4 sees the smaller
  box 7 and leaf 5 the smaller box 10 through their multipoles, and 7 and 10 receive
  the sources of 4 and 5 directly into their local expansions.
\<close>

definition example_traversal :: traversal where
  "example_traversal = \<lparr>
     trav_level_start_source_box_nrs = [0, 0, 0, 2, 6],
     trav_source_boxes = [4, 5, 7, 8, 9, 10],
     trav_level_start_source_parent_box_nrs = [0, 1, 3, 5, 5],
     trav_source_parent_boxes = [0, 1, 2, 3, 6],
     trav_level_start_target_box_nrs = [0, 0, 0, 2, 6],
     trav_target_boxes = [4, 5, 7, 8, 9, 10],
     trav_level_start_target_or_target_parent_box_nrs = [0, 1, 3, 7, 11],
     trav_target_or_target_parent_boxes = [0, 1, 2, 3, 4, 5, 6, 7, 8, 9, 10],
     trav_neighbor_sources_starts = [0, 3, 6, 8, 11, 14, 16],
     trav_neighbor_sources_lists = [4, 5, 8, 4, 5, 9, 7, 8, 4, 7, 8, 5, 9, 10, 9, 10],
     trav_sep_siblings_starts = [0, 0, 0, 0, 2, 3, 4, 6, 6, 6, 6, 6],
     trav_sep_siblings_lists = [5, 6, 6, 3, 3, 4],
     trav_target_boxes_by_source_level = [[], [], [], [4, 5]],
     trav_sep_smaller_by_level =
       [\<lparr>csr_starts = [0], csr_lists = []\<rparr>, \<lparr>csr_starts = [0], csr_lists = []\<rparr>,
        \<lparr>csr_starts = [0], csr_lists = []\<rparr>, \<lparr>csr_starts = [0, 1, 2], csr_lists = [7, 10]\<rparr>],
     trav_sep_bigger_starts = [0, 0, 0, 0, 0, 0, 0, 0, 1, 1, 1, 2],
     trav_sep_bigger_lists = [4, 5] \<rparr>"

section \<open>FMMLibExpansionWrangler: kernel routines, views and particle slices\<close>

text \<open>
  The source arguments of a kernel call, as \<open>get_source_kwargs\<close> builds them: charges,
  or dipole strengths (with the dipole vectors, except for Laplace in two dimensions).
\<close>

datatype source_kwargs =
  Charge "complex list" | Dipstr "complex list" | DipstrVec "complex list" "real list list"

text \<open>
  The routines of pyfmmlib that \<open>get_routine\<close> finds by name for the wrangler's letter,
  dimension and dipole suffix. They are external and enter the model as a parameter.
  Each field is the routine before the wrapper that the wrangler puts around it.
  Arguments, in this order: for \<open>formmp\<close> and \<open>formta\<close> the scale, the sources, the
  centre, the order, \<open>zk\<close> and the source arguments, returning the status \<open>ier\<close> and
  the coefficients; for \<open>mpmp\<close> and \<open>locloc\<close> scale, centre and coefficients of the
  given expansion, scale, centre and order of the new one, the radius, \<open>zk\<close> and the
  number of quadrature nodes, returning the coefficients and \<open>ier\<close>; for \<open>direct_eval\<close>
  the sources, the targets, \<open>zk\<close>, the source arguments and the gradient flag,
  returning potential and gradient; for \<open>mpeval\<close> and \<open>taeval\<close> scale, centre and
  coefficients of the expansion, the targets, \<open>zk\<close> and the gradient flag, returning
  potential, gradient and \<open>ier\<close>. A result is taken to be an array of the shape of the
  expansion or of the target slice it stands for; where the wrangler combines it with
  an array of another length, the model raises the \<open>ValueError\<close> of NumPy for shapes
  that do not match.
\<close>

record kernels =
  formmp :: "real \<Rightarrow> real list list \<Rightarrow> real list \<Rightarrow> int \<Rightarrow> complex option \<Rightarrow> source_kwargs
               \<Rightarrow> int \<times> complex list"
  formta :: "real \<Rightarrow> real list list \<Rightarrow> real list \<Rightarrow> int \<Rightarrow> complex option \<Rightarrow> source_kwargs
               \<Rightarrow> int \<times> complex list"
  mpmp :: "real \<Rightarrow> real list \<Rightarrow> complex list \<Rightarrow> real \<Rightarrow> real list \<Rightarrow> int \<Rightarrow> real option
               \<Rightarrow> complex option \<Rightarrow> int option \<Rightarrow> complex list \<times> int"
  locloc :: "real \<Rightarrow> real list \<Rightarrow> complex list \<Rightarrow> real \<Rightarrow> real list \<Rightarrow> int \<Rightarrow> real option
               \<Rightarrow> complex option \<Rightarrow> int option \<Rightarrow> complex list \<times> int"
  direct_eval :: "real list list \<Rightarrow> real list list \<Rightarrow> complex option \<Rightarrow> source_kwargs \<Rightarrow> bool
               \<Rightarrow> complex list \<times> complex list"
  mpeval :: "real \<Rightarrow> real list \<Rightarrow> complex list \<Rightarrow> real list list \<Rightarrow> complex option \<Rightarrow> bool
               \<Rightarrow> complex list \<times> complex list \<times> int"
  taeval :: "real \<Rightarrow> real list \<Rightarrow> complex list \<Rightarrow> real list list \<Rightarrow> complex option \<Rightarrow> bool
               \<Rightarrow> complex list \<times> complex list \<times> int"

text \<open>
  The record of the kernel calls of a pass, in the order they are made: which routine,
  at which level, for which boxes.
\<close>

datatype kernel_call =
    Call_formmp int int
  | Call_mpmp int int int
  | Call_direct int int
  | Call_mpeval int int int
  | Call_formta int int int
  | Call_locloc int int int
  | Call_taeval int int

definition level_to_rscale :: "tree \<Rightarrow> int \<Rightarrow> real" where
  "level_to_rscale t level =
     root_extent t * (if 0 \<le> level then 1 / 2 ^ nat level else 2 ^ nat (- level))"

text \<open>
  \<open>projection_quad_extra_kwargs\<close>: the number of quadrature nodes from which the nodes
  and weights are made, for Helmholtz in three dimensions; \<open>int(2.5 * n)\<close> rounds towards
  zero.
\<close>

definition projection_quad_extra_kwargs :: "wrangler \<Rightarrow> int \<Rightarrow> error + int option" where
  "projection_quad_extra_kwargs w level =
     (if dim w = 3 \<and> eqn_letter w = ''h''
      then bindE (getitem (level_nterms w) level) (\<lambda>n.
             Inr (Some (max 6 (if 0 \<le> n then (5 * n) div 2 else - ((5 * (- n)) div 2)))))
      else Inr None)"

text \<open>
  The wrapper of \<open>get_translation_routine\<close>: in two dimensions it calls the routine; in
  any other dimension it adds the quadrature arguments and raises \<open>RuntimeError\<close> on a
  status that is not zero.
\<close>

definition translation_wrapper ::
  "wrangler \<Rightarrow> (int option \<Rightarrow> complex list \<times> int) \<Rightarrow> int \<Rightarrow> error + complex list" where
  "translation_wrapper w rout level_for_projection =
     (if dim w = 2 then Inr (fst (rout None))
      else bindE (projection_quad_extra_kwargs w level_for_projection) (\<lambda>q.
             case rout q of (val, ier) \<Rightarrow> if ier \<noteq> 0 then Inl RuntimeError else Inr val))"

text \<open>
  \<open>get_direct_eval_routine\<close>: the routine wrapped so that the gradient is 0 (here:
  absent) unless \<open>ifgrad\<close> is set; in three dimensions the gradient is the negated
  field. Any other dimension raises \<open>ValueError\<close>.
\<close>

definition get_direct_eval_routine ::
  "kernels \<Rightarrow> wrangler
     \<Rightarrow> error + (real list list \<Rightarrow> real list list \<Rightarrow> complex option \<Rightarrow> source_kwargs
                 \<Rightarrow> complex list \<times> complex list option)" where
  "get_direct_eval_routine k w =
     (if dim w = 2 then
        Inr (\<lambda>src tgt zk kwargs.
               case direct_eval k src tgt zk kwargs (ifgrad w) of
                 (pot, grad) \<Rightarrow> (pot, if ifgrad w then Some grad else None))
      else if dim w = 3 then
        Inr (\<lambda>src tgt zk kwargs.
               case direct_eval k src tgt zk kwargs (ifgrad w) of
                 (pot, fld) \<Rightarrow> (pot, if ifgrad w then Some (map uminus fld) else None))
      else Inl ValueError)"

text \<open>
  \<open>get_expn_eval_routine\<close> for the routine \<open>rout\<close> (\<open>mpeval\<close> or \<open>taeval\<close>); in three
  dimensions the wrapper raises \<open>RuntimeError\<close> on a status that is not zero.
\<close>

definition get_expn_eval_routine ::
  "wrangler
     \<Rightarrow> (real \<Rightarrow> real list \<Rightarrow> complex list \<Rightarrow> real list list \<Rightarrow> complex option \<Rightarrow> bool
           \<Rightarrow> complex list \<times> complex list \<times> int)
     \<Rightarrow> error + (real \<Rightarrow> real list \<Rightarrow> complex list \<Rightarrow> real list list \<Rightarrow> complex option
                 \<Rightarrow> error + (complex list \<times> complex list option))" where
  "get_expn_eval_routine w rout =
     (if dim w = 2 then
        Inr (\<lambda>rscale center expn ztarg zk.
               case rout rscale center expn ztarg zk (ifgrad w) of
                 (pot, grad, ier) \<Rightarrow> Inr (pot, if ifgrad w then Some grad else None))
      else if dim w = 3 then
        Inr (\<lambda>rscale center expn ztarg zk.
               case rout rscale center expn ztarg zk (ifgrad w) of
                 (pot, fld, ier) \<Rightarrow>
                   if ier \<noteq> 0 then Inl RuntimeError
                   else Inr (pot, if ifgrad w then Some (map uminus fld) else None))
      else Inl ValueError)"

text \<open>
  A view of one level of a flat expansion buffer, as \<open>multipole_expansions_view\<close> makes
  it by slicing and reshaping: where the region of the level starts in the buffer, how
  many rows (boxes) it has and how many coefficients a row holds. The view shares the
  memory of the buffer, so rows are read from and written to the buffer itself.
\<close>

record view =
  v_start :: nat
  v_nrows :: nat
  v_rowlen :: nat

text \<open>
  \<open>buf[expn_start:expn_stop].reshape(nrows, *shape)\<close>. A dimension of \<open>-1\<close>, which asks
  NumPy to infer it, can only come from a negative box count or order and is treated
  as the error that every other negative dimension is.
\<close>

definition reshape_view :: "'a list \<Rightarrow> int \<Rightarrow> int \<Rightarrow> int \<Rightarrow> int list \<Rightarrow> error + view" where
  "reshape_view buf expn_start expn_stop nrows shape =
     (let lo = clamp_index (length buf) expn_start;
          hi = clamp_index (length buf) expn_stop
      in if nrows < 0 \<or> (\<exists>d \<in> set shape. d < 0) then Inl ValueError
         else if nrows * product shape \<noteq> int (hi - lo) then Inl ValueError
         else Inr \<lparr> v_start = lo, v_nrows = nat nrows, v_rowlen = nat (product shape) \<rparr>)"

definition expansions_view ::
  "wrangler \<Rightarrow> 'a list \<Rightarrow> int \<Rightarrow> error + (int \<times> view)" where
  "expansions_view w exps level =
     bindE (unpack2 (py_slice (level_start_box_nrs (w_tree w)) level (level + 2)))
       (\<lambda>(box_start, box_stop).
     bindE (multipole_expansions_level_starts w) (\<lambda>level_starts.
     bindE (unpack2 (py_slice level_starts level (level + 2))) (\<lambda>(expn_start, expn_stop).
     bindE (getitem (level_nterms w) level) (\<lambda>order.
     bindE (expansion_shape w order) (\<lambda>shape.
     bindE (reshape_view exps expn_start expn_stop (box_stop - box_start) shape) (\<lambda>v.
       Inr (box_start, v)))))))"

definition multipole_expansions_view ::
  "wrangler \<Rightarrow> complex list \<Rightarrow> int \<Rightarrow> error + (int \<times> view)" where
  "multipole_expansions_view w mpole_exps level = expansions_view w mpole_exps level"

definition local_expansions_view ::
  "wrangler \<Rightarrow> complex list \<Rightarrow> int \<Rightarrow> error + (int \<times> view)" where
  "local_expansions_view w local_exps level = expansions_view w local_exps level"

text \<open>The row of a view that an index denotes; a negative index counts from the end.\<close>

definition view_row :: "view \<Rightarrow> int \<Rightarrow> error + nat" where
  "view_row v r =
     (if 0 \<le> r \<and> r < int (v_nrows v) then Inr (nat r)
      else if - int (v_nrows v) \<le> r \<and> r < 0 then Inr (nat (int (v_nrows v) + r))
      else Inl IndexError)"

definition read_row :: "'a list \<Rightarrow> view \<Rightarrow> nat \<Rightarrow> 'a list" where
  "read_row buf v k = take (v_rowlen v) (drop (v_start v + k * v_rowlen v) buf)"

definition write_row :: "'a list \<Rightarrow> view \<Rightarrow> nat \<Rightarrow> 'a list \<Rightarrow> 'a list" where
  "write_row buf v k vals =
     take (v_start v + k * v_rowlen v) buf @ vals @ drop (v_start v + Suc k * v_rowlen v) buf"

text \<open>\<open>view[r]\<close>, \<open>view[r] = vals\<close> and \<open>view[r] += vals\<close>.\<close>

definition view_get :: "complex list \<Rightarrow> view \<Rightarrow> int \<Rightarrow> error + complex list" where
  "view_get buf v r = bindE (view_row v r) (\<lambda>k. Inr (read_row buf v k))"

definition view_set :: "complex list \<Rightarrow> view \<Rightarrow> int \<Rightarrow> complex list \<Rightarrow> error + complex list" where
  "view_set buf v r vals =
     bindE (view_row v r) (\<lambda>k.
       if length vals \<noteq> v_rowlen v then Inl ValueError else Inr (write_row buf v k vals))"

definition np_add :: "complex list \<Rightarrow> complex list \<Rightarrow> error + complex list" where
  "np_add xs ys =
     (if length xs \<noteq> length ys then Inl ValueError else Inr (map (\<lambda>(x, y). x + y) (zip xs ys)))"

definition view_add :: "complex list \<Rightarrow> view \<Rightarrow> int \<Rightarrow> complex list \<Rightarrow> error + complex list" where
  "view_add buf v r vals =
     bindE (view_row v r) (\<lambda>k.
     bindE (np_add (read_row buf v k) vals) (\<lambda>new. Inr (write_row buf v k new)))"

text \<open>
  An accumulator that starts as the number 0 (\<open>None\<close>) and becomes an array with the
  first array added to it.
\<close>

definition acc_add :: "complex list option \<Rightarrow> complex list \<Rightarrow> error + complex list option" where
  "acc_add acc vals =
     (case acc of None \<Rightarrow> Inr (Some vals)
      | Some a \<Rightarrow> bindE (np_add a vals) (\<lambda>s. Inr (Some s)))"

definition acc_add_opt ::
  "complex list option \<Rightarrow> complex list option \<Rightarrow> error + complex list option" where
  "acc_add_opt acc vals = (case vals of None \<Rightarrow> Inr acc | Some g \<Rightarrow> acc_add acc g)"

text \<open>
  \<open>output_zeros\<close> and \<open>add_potgrad_onto_output\<close>. Without gradients the output is one
  array. With gradients it is a one-dimensional array of objects, one array each for
  the potential and the gradient components; indexing it by a pair, as
  \<open>add_potgrad_onto_output\<close> does in that case, raises \<open>IndexError\<close>.
\<close>

datatype fmm_output = OutArr "complex list" | OutObj "complex list list"

definition output_zeros :: "wrangler \<Rightarrow> error + fmm_output" where
  "output_zeros w =
     (if ntargets (w_tree w) < 0 then Inl ValueError
      else if ifgrad w
        then Inr (OutObj (map (\<lambda>i. replicate (nat (ntargets (w_tree w))) 0) (py_range (1 + dim w))))
        else Inr (OutArr (replicate (nat (ntargets (w_tree w))) 0)))"

definition iadd_slice ::
  "complex list \<Rightarrow> int \<Rightarrow> int \<Rightarrow> complex list option \<Rightarrow> error + complex list" where
  "iadd_slice xs a b pot =
     (case pot of None \<Rightarrow> Inr xs
      | Some p \<Rightarrow>
          let lo = clamp_index (length xs) a; hi = clamp_index (length xs) b
          in if length p \<noteq> hi - lo then Inl ValueError
             else Inr (take lo xs @ map (\<lambda>(x, y). x + y) (zip (take (hi - lo) (drop lo xs)) p)
                       @ drop (lo + (hi - lo)) xs))"

definition add_potgrad_onto_output ::
  "wrangler \<Rightarrow> fmm_output \<Rightarrow> int \<times> int \<Rightarrow> complex list option \<Rightarrow> complex list option
     \<Rightarrow> error + fmm_output" where
  "add_potgrad_onto_output w out output_slice pot grad =
     (if ifgrad w then Inl IndexError
      else case out of
             OutArr xs \<Rightarrow> bindE (iadd_slice xs (fst output_slice) (snd output_slice) pot)
                            (\<lambda>ys. Inr (OutArr ys))
           | OutObj _ \<Rightarrow> Inl IndexError)"

definition get_target_slice :: "wrangler \<Rightarrow> int \<Rightarrow> error + (int \<times> int)" where
  "get_target_slice w ibox =
     bindE (getitem (box_target_starts (w_tree w)) ibox) (\<lambda>pstart.
     bindE (getitem (box_target_counts_nonchild (w_tree w)) ibox) (\<lambda>cnt.
       Inr (pstart, pstart + cnt)))"

definition get_sources :: "wrangler \<Rightarrow> int \<times> int \<Rightarrow> error + real list list" where
  "get_sources w pslice =
     bindE (mapE (getitem (sources (w_tree w))) (py_range (dim w))) (\<lambda>rows.
       Inr (map (\<lambda>row. py_slice row (fst pslice) (snd pslice)) rows))"

definition get_targets :: "wrangler \<Rightarrow> int \<times> int \<Rightarrow> error + real list list" where
  "get_targets w pslice =
     bindE (mapE (getitem (targets (w_tree w))) (py_range (dim w))) (\<lambda>rows.
       Inr (map (\<lambda>row. py_slice row (fst pslice) (snd pslice)) rows))"

text \<open>The product of two arrays of the same length, element by element.\<close>

definition np_mul :: "complex list \<Rightarrow> complex list \<Rightarrow> error + complex list" where
  "np_mul xs ys =
     (if length xs \<noteq> length ys then Inl ValueError else Inr (map (\<lambda>(x, y). x * y) (zip xs ys)))"

definition get_source_kwargs ::
  "wrangler \<Rightarrow> complex list \<Rightarrow> int \<times> int \<Rightarrow> error + source_kwargs" where
  "get_source_kwargs w src_weights pslice =
     (case dipole_vec w of
        None \<Rightarrow> Inr (Charge (py_slice src_weights (fst pslice) (snd pslice)))
      | Some dv \<Rightarrow>
          if eqn_letter w = ''l'' \<and> dim w = 2 then
            bindE (getitem dv 0) (\<lambda>row0.
            bindE (getitem dv 1) (\<lambda>row1.
            bindE (np_add (map of_real (py_slice row0 (fst pslice) (snd pslice)))
                     (map (\<lambda>y. \<i> * of_real y) (py_slice row1 (fst pslice) (snd pslice))))
              (\<lambda>dir.
            bindE (np_mul (map uminus (py_slice src_weights (fst pslice) (snd pslice))) dir)
              (\<lambda>dipstr. Inr (Dipstr dipstr)))))
          else Inr (DipstrVec (py_slice src_weights (fst pslice) (snd pslice))
                      (map (\<lambda>row. py_slice row (fst pslice) (snd pslice)) dv)))"

text \<open>The contents of an allocated buffer as complex numbers.\<close>

fun arr_complex :: "ndarray \<Rightarrow> complex list" where
  "arr_complex (ComplexArr zs) = zs"
| "arr_complex (RealArr xs) = map of_real xs"

section \<open>FMMLibExpansionWrangler: the passes\<close>

text \<open>
  A pass threads the buffer it writes, or the output it accumulates, together with
  the record of its kernel calls. The passes are modelled for the element type
  \<open>complex128\<close>, which the constructor sets.
\<close>

definition form_multipoles_box ::
  "kernels \<Rightarrow> wrangler \<Rightarrow> complex list \<Rightarrow> int \<Rightarrow> int \<Rightarrow> view \<Rightarrow> real \<Rightarrow> int
     \<Rightarrow> complex list \<times> kernel_call list \<Rightarrow> error + (complex list \<times> kernel_call list)" where
  "form_multipoles_box k w src_weights lev level_start_ibox mpoles_view rscale src_ibox st =
     bindE (get_source_slice (w_tree w) src_ibox) (\<lambda>pslice.
       if snd pslice - fst pslice = 0 then Inr st
       else
         bindE (get_source_kwargs w src_weights pslice) (\<lambda>kwargs.
         bindE (get_sources w pslice) (\<lambda>source.
         bindE (column (box_centers (w_tree w)) src_ibox) (\<lambda>center.
         bindE (getitem (level_nterms w) lev) (\<lambda>nterms.
           case formmp k rscale source center nterms (kernel_kwargs w) kwargs of
             (ier, mpole) \<Rightarrow>
               if ier \<noteq> 0 then Inl RuntimeError
               else bindE (view_set (fst st) mpoles_view (src_ibox - level_start_ibox) mpole)
                      (\<lambda>mpoles. Inr (mpoles, snd st @ [Call_formmp lev src_ibox])))))))"

definition form_multipoles_level ::
  "kernels \<Rightarrow> wrangler \<Rightarrow> int list \<Rightarrow> int list \<Rightarrow> complex list \<Rightarrow> int
     \<Rightarrow> complex list \<times> kernel_call list \<Rightarrow> error + (complex list \<times> kernel_call list)" where
  "form_multipoles_level k w level_start_source_box_nrs source_boxes src_weights lev st =
     bindE (unpack2 (py_slice level_start_source_box_nrs lev (lev + 2))) (\<lambda>(start, stop).
       if start = stop then Inr st
       else
         bindE (multipole_expansions_view w (fst st) lev) (\<lambda>(level_start_ibox, mpoles_view).
           foldE (form_multipoles_box k w src_weights lev level_start_ibox mpoles_view
                    (level_to_rscale (w_tree w) lev))
             (py_slice source_boxes start stop) st))"

definition form_multipoles ::
  "kernels \<Rightarrow> wrangler \<Rightarrow> int list \<Rightarrow> int list \<Rightarrow> complex list
     \<Rightarrow> error + (complex list \<times> kernel_call list)" where
  "form_multipoles k w level_start_source_box_nrs source_boxes src_weights =
     bindE (multipole_expansion_zeros w) (\<lambda>mpoles.
       foldE (form_multipoles_level k w level_start_source_box_nrs source_boxes src_weights)
         (py_range (nlevels (w_tree w))) (arr_complex mpoles, []))"

text \<open>The radius argument of the translations, for Helmholtz in three dimensions.\<close>

definition translation_radius :: "wrangler \<Rightarrow> int \<Rightarrow> real option" where
  "translation_radius w level =
     (if dim w = 3 \<and> eqn_letter w = ''h'' then Some (level_to_rscale (w_tree w) level) else None)"

definition coarsen_child ::
  "kernels \<Rightarrow> wrangler \<Rightarrow> int \<Rightarrow> int \<times> view \<Rightarrow> int \<times> view \<Rightarrow> int \<Rightarrow> real list \<Rightarrow> int
     \<Rightarrow> complex list \<times> kernel_call list \<Rightarrow> error + (complex list \<times> kernel_call list)" where
  "coarsen_child k w source_level source_view target_view ibox parent_center child st =
     (if child \<noteq> 0 then
        bindE (column (box_centers (w_tree w)) child) (\<lambda>child_center.
        bindE (view_get (fst st) (snd source_view) (child - fst source_view)) (\<lambda>expn1.
        bindE (getitem (level_nterms w) (source_level - 1)) (\<lambda>nterms2.
        bindE (translation_wrapper w
                 (mpmp k (level_to_rscale (w_tree w) source_level) child_center expn1
                    (level_to_rscale (w_tree w) (source_level - 1)) parent_center nterms2
                    (translation_radius w (source_level - 1)) (kernel_kwargs w))
                 source_level) (\<lambda>new_mp.
        bindE (view_add (fst st) (snd target_view) (ibox - fst target_view) new_mp) (\<lambda>mpoles.
          Inr (mpoles, snd st @ [Call_mpmp source_level ibox child]))))))
      else Inr st)"

definition coarsen_box ::
  "kernels \<Rightarrow> wrangler \<Rightarrow> int \<Rightarrow> int \<times> view \<Rightarrow> int \<times> view \<Rightarrow> int
     \<Rightarrow> complex list \<times> kernel_call list \<Rightarrow> error + (complex list \<times> kernel_call list)" where
  "coarsen_box k w source_level source_view target_view ibox st =
     bindE (column (box_centers (w_tree w)) ibox) (\<lambda>parent_center.
     bindE (column (box_child_ids (w_tree w)) ibox) (\<lambda>children.
       foldE (coarsen_child k w source_level source_view target_view ibox parent_center)
         children st))"

definition coarsen_level ::
  "kernels \<Rightarrow> wrangler \<Rightarrow> int list \<Rightarrow> int list \<Rightarrow> int
     \<Rightarrow> complex list \<times> kernel_call list \<Rightarrow> error + (complex list \<times> kernel_call list)" where
  "coarsen_level k w level_start_source_parent_box_nrs source_parent_boxes source_level st =
     (let target_level = source_level - 1
      in bindE (unpack2 (py_slice level_start_source_parent_box_nrs target_level (target_level + 2)))
           (\<lambda>(start, stop).
         bindE (multipole_expansions_view w (fst st) source_level) (\<lambda>source_view.
         bindE (multipole_expansions_view w (fst st) target_level) (\<lambda>target_view.
           foldE (coarsen_box k w source_level source_view target_view)
             (py_slice source_parent_boxes start stop) st))))"

definition coarsen_multipoles ::
  "kernels \<Rightarrow> wrangler \<Rightarrow> int list \<Rightarrow> int list \<Rightarrow> complex list
     \<Rightarrow> error + (complex list \<times> kernel_call list)" where
  "coarsen_multipoles k w level_start_source_parent_box_nrs source_parent_boxes mpoles =
     foldE (coarsen_level k w level_start_source_parent_box_nrs source_parent_boxes)
       (py_range_down (nlevels (w_tree w) - 1) 2) (mpoles, [])"

text \<open>
  The accumulators of a target box in \<open>eval_direct\<close> and \<open>eval_multipoles\<close>: potential
  and gradient, and the kernel calls made so far.
\<close>

type_synonym box_acc = "complex list option \<times> complex list option \<times> kernel_call list"

type_synonym direct_routine =
  "real list list \<Rightarrow> real list list \<Rightarrow> complex option \<Rightarrow> source_kwargs
     \<Rightarrow> complex list \<times> complex list option"

type_synonym expn_eval_routine =
  "real \<Rightarrow> real list \<Rightarrow> complex list \<Rightarrow> real list list \<Rightarrow> complex option
     \<Rightarrow> error + (complex list \<times> complex list option)"

definition eval_direct_source ::
  "direct_routine \<Rightarrow> wrangler \<Rightarrow> complex list \<Rightarrow> int \<Rightarrow> int \<times> int \<Rightarrow> int \<Rightarrow> box_acc
     \<Rightarrow> error + box_acc" where
  "eval_direct_source ev w src_weights tgt_ibox tgt_pslice src_ibox acc =
     bindE (get_source_slice (w_tree w) src_ibox) (\<lambda>src_pslice.
       if snd src_pslice - fst src_pslice = 0 then Inr acc
       else
         bindE (get_source_kwargs w src_weights src_pslice) (\<lambda>kwargs.
         bindE (get_sources w src_pslice) (\<lambda>src.
         bindE (get_targets w tgt_pslice) (\<lambda>tgt.
           case ev src tgt (kernel_kwargs w) kwargs of
             (tmp_pot, tmp_grad) \<Rightarrow>
               bindE (acc_add (fst acc) tmp_pot) (\<lambda>pot.
               bindE (acc_add_opt (fst (snd acc)) tmp_grad) (\<lambda>grad.
                 Inr (pot, grad, snd (snd acc) @ [Call_direct tgt_ibox src_ibox])))))))"

definition eval_direct_box ::
  "direct_routine \<Rightarrow> wrangler \<Rightarrow> int list \<Rightarrow> int list \<Rightarrow> complex list \<Rightarrow> int \<times> int
     \<Rightarrow> fmm_output \<times> kernel_call list \<Rightarrow> error + (fmm_output \<times> kernel_call list)" where
  "eval_direct_box ev w neighbor_sources_starts neighbor_sources_lists src_weights tgt st =
     (case tgt of (itgt_box, tgt_ibox) \<Rightarrow>
        bindE (get_target_slice w tgt_ibox) (\<lambda>tgt_pslice.
          if snd tgt_pslice - fst tgt_pslice = 0 then Inr st
          else
            bindE (unpack2 (py_slice neighbor_sources_starts itgt_box (itgt_box + 2)))
              (\<lambda>(start, end).
            bindE (foldE (eval_direct_source ev w src_weights tgt_ibox tgt_pslice)
                     (py_slice neighbor_sources_lists start end) (None, None, snd st))
              (\<lambda>(pot, grad, calls).
            bindE (add_potgrad_onto_output w (fst st) tgt_pslice pot grad) (\<lambda>out.
              Inr (out, calls))))))"

definition eval_direct ::
  "kernels \<Rightarrow> wrangler \<Rightarrow> int list \<Rightarrow> int list \<Rightarrow> int list \<Rightarrow> complex list
     \<Rightarrow> error + (fmm_output \<times> kernel_call list)" where
  "eval_direct k w target_boxes neighbor_sources_starts neighbor_sources_lists src_weights =
     bindE (output_zeros w) (\<lambda>out.
     bindE (get_direct_eval_routine k w) (\<lambda>ev.
       foldE (eval_direct_box ev w neighbor_sources_starts neighbor_sources_lists src_weights)
         (enumerate_py target_boxes) (out, [])))"

definition eval_multipoles_source ::
  "expn_eval_routine \<Rightarrow> wrangler \<Rightarrow> complex list \<Rightarrow> int \<Rightarrow> int \<times> view \<Rightarrow> int \<Rightarrow> int \<times> int \<Rightarrow> int
     \<Rightarrow> box_acc \<Rightarrow> error + box_acc" where
  "eval_multipoles_source mpeval' w mpole_exps isrc_level source_view tgt_ibox tgt_pslice src_ibox acc =
     bindE (column (box_centers (w_tree w)) src_ibox) (\<lambda>center.
     bindE (view_get mpole_exps (snd source_view) (src_ibox - fst source_view)) (\<lambda>expn.
     bindE (get_targets w tgt_pslice) (\<lambda>ztarg.
     bindE (mpeval' (level_to_rscale (w_tree w) isrc_level) center expn ztarg (kernel_kwargs w))
       (\<lambda>(tmp_pot, tmp_grad).
     bindE (acc_add (fst acc) tmp_pot) (\<lambda>pot.
     bindE (acc_add_opt (fst (snd acc)) tmp_grad) (\<lambda>grad.
       Inr (pot, grad, snd (snd acc) @ [Call_mpeval isrc_level tgt_ibox src_ibox])))))))"

definition eval_multipoles_box ::
  "expn_eval_routine \<Rightarrow> wrangler \<Rightarrow> complex list \<Rightarrow> int \<Rightarrow> csr_list \<Rightarrow> int \<times> view \<Rightarrow> int \<times> int
     \<Rightarrow> fmm_output \<times> kernel_call list \<Rightarrow> error + (fmm_output \<times> kernel_call list)" where
  "eval_multipoles_box mpeval' w mpole_exps isrc_level ssn source_view tgt st =
     (case tgt of (itgt_box, tgt_ibox) \<Rightarrow>
        bindE (get_target_slice w tgt_ibox) (\<lambda>tgt_pslice.
          if snd tgt_pslice - fst tgt_pslice = 0 then Inr st
          else
            bindE (unpack2 (py_slice (csr_starts ssn) itgt_box (itgt_box + 2))) (\<lambda>(start, end).
            bindE (foldE (eval_multipoles_source mpeval' w mpole_exps isrc_level source_view tgt_ibox
                            tgt_pslice)
                     (py_slice (csr_lists ssn) start end) (None, None, snd st))
              (\<lambda>(pot, grad, calls).
            bindE (add_potgrad_onto_output w (fst st) tgt_pslice pot grad) (\<lambda>out.
              Inr (out, calls))))))"

definition eval_multipoles_level ::
  "expn_eval_routine \<Rightarrow> wrangler \<Rightarrow> int list \<Rightarrow> complex list \<Rightarrow> int \<times> csr_list
     \<Rightarrow> fmm_output \<times> kernel_call list \<Rightarrow> error + (fmm_output \<times> kernel_call list)" where
  "eval_multipoles_level mpeval' w target_boxes mpole_exps lev st =
     (case lev of (isrc_level, ssn) \<Rightarrow>
        bindE (multipole_expansions_view w mpole_exps isrc_level) (\<lambda>source_view.
          foldE (eval_multipoles_box mpeval' w mpole_exps isrc_level ssn source_view)
            (enumerate_py target_boxes) st))"

definition eval_multipoles ::
  "kernels \<Rightarrow> wrangler \<Rightarrow> int list \<Rightarrow> int list \<Rightarrow> csr_list list \<Rightarrow> complex list
     \<Rightarrow> error + (fmm_output \<times> kernel_call list)" where
  "eval_multipoles k w level_start_target_box_nrs target_boxes sep_smaller_nonsiblings_by_level
       mpole_exps =
     bindE (output_zeros w) (\<lambda>out.
     bindE (get_expn_eval_routine w (mpeval k)) (\<lambda>mpeval'.
       foldE (eval_multipoles_level mpeval' w target_boxes mpole_exps)
         (enumerate_py sep_smaller_nonsiblings_by_level) (out, [])))"

definition form_locals_source ::
  "kernels \<Rightarrow> wrangler \<Rightarrow> complex list \<Rightarrow> int \<Rightarrow> int \<Rightarrow> int
     \<Rightarrow> complex list option \<times> kernel_call list
     \<Rightarrow> error + (complex list option \<times> kernel_call list)" where
  "form_locals_source k w src_weights lev tgt_ibox src_ibox acc =
     bindE (get_source_slice (w_tree w) src_ibox) (\<lambda>src_pslice.
     bindE (column (box_centers (w_tree w)) tgt_ibox) (\<lambda>tgt_center.
       if snd src_pslice - fst src_pslice = 0 then Inr acc
       else
         bindE (get_source_kwargs w src_weights src_pslice) (\<lambda>kwargs.
         bindE (get_sources w src_pslice) (\<lambda>source.
         bindE (getitem (level_nterms w) lev) (\<lambda>nterms.
           case formta k (level_to_rscale (w_tree w) lev) source tgt_center nterms
                  (kernel_kwargs w) kwargs of
             (ier, mpole) \<Rightarrow>
               if ier \<noteq> 0 then Inl RuntimeError
               else bindE (acc_add (fst acc) mpole) (\<lambda>contrib.
                      Inr (contrib, snd acc @ [Call_formta lev tgt_ibox src_ibox])))))))"

definition form_locals_box ::
  "kernels \<Rightarrow> wrangler \<Rightarrow> int list \<Rightarrow> int list \<Rightarrow> complex list \<Rightarrow> int \<Rightarrow> int \<Rightarrow> int \<times> view
     \<Rightarrow> int \<times> int \<Rightarrow> complex list \<times> kernel_call list
     \<Rightarrow> error + (complex list \<times> kernel_call list)" where
  "form_locals_box k w starts lists' src_weights lev lev_start target_view tgt st =
     (case tgt of (itgt_box, tgt_ibox) \<Rightarrow>
        bindE (unpack2 (py_slice starts (lev_start + itgt_box) (lev_start + itgt_box + 2)))
          (\<lambda>(start, end).
        bindE (foldE (form_locals_source k w src_weights lev tgt_ibox)
                 (py_slice lists' start end) (None, snd st)) (\<lambda>(contrib, calls).
        bindE (view_set (fst st) (snd target_view) (tgt_ibox - fst target_view)
                 (case contrib of None \<Rightarrow> replicate (v_rowlen (snd target_view)) 0
                  | Some c \<Rightarrow> c)) (\<lambda>local_exps.
          Inr (local_exps, calls)))))"

definition form_locals_level ::
  "kernels \<Rightarrow> wrangler \<Rightarrow> int list \<Rightarrow> int list \<Rightarrow> int list \<Rightarrow> int list \<Rightarrow> complex list \<Rightarrow> int
     \<Rightarrow> complex list \<times> kernel_call list \<Rightarrow> error + (complex list \<times> kernel_call list)" where
  "form_locals_level k w level_start_target_or_target_parent_box_nrs
       target_or_target_parent_boxes starts lists' src_weights lev st =
     bindE (unpack2 (py_slice level_start_target_or_target_parent_box_nrs lev (lev + 2)))
       (\<lambda>(lev_start, lev_stop).
       if lev_start = lev_stop then Inr st
       else
         bindE (local_expansions_view w (fst st) lev) (\<lambda>target_view.
           foldE (form_locals_box k w starts lists' src_weights lev lev_start target_view)
             (enumerate_py (py_slice target_or_target_parent_boxes lev_start lev_stop)) st))"

definition form_locals ::
  "kernels \<Rightarrow> wrangler \<Rightarrow> int list \<Rightarrow> int list \<Rightarrow> int list \<Rightarrow> int list \<Rightarrow> complex list
     \<Rightarrow> error + (complex list \<times> kernel_call list)" where
  "form_locals k w level_start_target_or_target_parent_box_nrs target_or_target_parent_boxes
       starts lists' src_weights =
     bindE (local_expansion_zeros w) (\<lambda>local_exps.
       foldE (form_locals_level k w level_start_target_or_target_parent_box_nrs
                target_or_target_parent_boxes starts lists' src_weights)
         (py_range (nlevels (w_tree w))) (arr_complex local_exps, []))"

definition refine_box ::
  "kernels \<Rightarrow> wrangler \<Rightarrow> int \<Rightarrow> int \<times> view \<Rightarrow> int \<times> view \<Rightarrow> int
     \<Rightarrow> complex list \<times> kernel_call list \<Rightarrow> error + (complex list \<times> kernel_call list)" where
  "refine_box k w target_lev source_view target_view tgt_ibox st =
     bindE (column (box_centers (w_tree w)) tgt_ibox) (\<lambda>tgt_center.
     bindE (getitem (box_parent_ids (w_tree w)) tgt_ibox) (\<lambda>src_ibox.
     bindE (column (box_centers (w_tree w)) src_ibox) (\<lambda>src_center.
     bindE (view_get (fst st) (snd source_view) (src_ibox - fst source_view)) (\<lambda>expn1.
     bindE (getitem (level_nterms w) target_lev) (\<lambda>nterms2.
     bindE (translation_wrapper w
              (locloc k (level_to_rscale (w_tree w) (target_lev - 1)) src_center expn1
                 (level_to_rscale (w_tree w) target_lev) tgt_center nterms2
                 (translation_radius w target_lev) (kernel_kwargs w))
              target_lev) (\<lambda>tmp_loc_exp.
     bindE (view_add (fst st) (snd target_view) (tgt_ibox - fst target_view) tmp_loc_exp)
       (\<lambda>local_exps. Inr (local_exps, snd st @ [Call_locloc target_lev tgt_ibox src_ibox]))))))))"

definition refine_level ::
  "kernels \<Rightarrow> wrangler \<Rightarrow> int list \<Rightarrow> int list \<Rightarrow> int
     \<Rightarrow> complex list \<times> kernel_call list \<Rightarrow> error + (complex list \<times> kernel_call list)" where
  "refine_level k w level_start_target_or_target_parent_box_nrs target_or_target_parent_boxes
       target_lev st =
     bindE (unpack2 (py_slice level_start_target_or_target_parent_box_nrs target_lev
                       (target_lev + 2))) (\<lambda>(start, stop).
     bindE (local_expansions_view w (fst st) (target_lev - 1)) (\<lambda>source_view.
     bindE (local_expansions_view w (fst st) target_lev) (\<lambda>target_view.
       foldE (refine_box k w target_lev source_view target_view)
         (py_slice target_or_target_parent_boxes start stop) st)))"

definition refine_locals ::
  "kernels \<Rightarrow> wrangler \<Rightarrow> int list \<Rightarrow> int list \<Rightarrow> complex list
     \<Rightarrow> error + (complex list \<times> kernel_call list)" where
  "refine_locals k w level_start_target_or_target_parent_box_nrs target_or_target_parent_boxes
       local_exps =
     foldE (refine_level k w level_start_target_or_target_parent_box_nrs
              target_or_target_parent_boxes)
       (py_range2 1 (nlevels (w_tree w))) (local_exps, [])"

definition eval_locals_box ::
  "expn_eval_routine \<Rightarrow> wrangler \<Rightarrow> complex list \<Rightarrow> int \<Rightarrow> int \<times> view \<Rightarrow> int
     \<Rightarrow> fmm_output \<times> kernel_call list \<Rightarrow> error + (fmm_output \<times> kernel_call list)" where
  "eval_locals_box taeval' w local_exps lev source_view tgt_ibox st =
     bindE (get_target_slice w tgt_ibox) (\<lambda>tgt_pslice.
       if snd tgt_pslice - fst tgt_pslice = 0 then Inr st
       else
         bindE (column (box_centers (w_tree w)) tgt_ibox) (\<lambda>center.
         bindE (view_get local_exps (snd source_view) (tgt_ibox - fst source_view)) (\<lambda>expn.
         bindE (get_targets w tgt_pslice) (\<lambda>ztarg.
         bindE (taeval' (level_to_rscale (w_tree w) lev) center expn ztarg (kernel_kwargs w))
           (\<lambda>(tmp_pot, tmp_grad).
         bindE (add_potgrad_onto_output w (fst st) tgt_pslice (Some tmp_pot) tmp_grad) (\<lambda>out.
           Inr (out, snd st @ [Call_taeval lev tgt_ibox])))))))"

definition eval_locals_level ::
  "expn_eval_routine \<Rightarrow> wrangler \<Rightarrow> int list \<Rightarrow> int list \<Rightarrow> complex list \<Rightarrow> int
     \<Rightarrow> fmm_output \<times> kernel_call list \<Rightarrow> error + (fmm_output \<times> kernel_call list)" where
  "eval_locals_level taeval' w level_start_target_box_nrs target_boxes local_exps lev st =
     bindE (unpack2 (py_slice level_start_target_box_nrs lev (lev + 2))) (\<lambda>(start, stop).
       if start = stop then Inr st
       else
         bindE (local_expansions_view w local_exps lev) (\<lambda>source_view.
           foldE (eval_locals_box taeval' w local_exps lev source_view)
             (py_slice target_boxes start stop) st))"

definition eval_locals ::
  "kernels \<Rightarrow> wrangler \<Rightarrow> int list \<Rightarrow> int list \<Rightarrow> complex list
     \<Rightarrow> error + (fmm_output \<times> kernel_call list)" where
  "eval_locals k w level_start_target_box_nrs target_boxes local_exps =
     bindE (output_zeros w) (\<lambda>out.
     bindE (get_expn_eval_routine w (taeval k)) (\<lambda>taeval'.
       foldE (eval_locals_level taeval' w level_start_target_box_nrs target_boxes local_exps)
         (py_range (nlevels (w_tree w))) (out, [])))"

section \<open>Properties of the record of kernel calls\<close>

text \<open>
  A call of the multipole-to-multipole translation, as \<open>coarsen_multipoles\<close> may make
  it: the level of the translated expansion is 3 or deeper, so the level it is added
  to is 2 or deeper, and the translated expansion belongs to a child of the box, one
  that is present.
\<close>

definition coarsen_call_ok :: "wrangler \<Rightarrow> kernel_call \<Rightarrow> bool" where
  "coarsen_call_ok w c =
     (case c of
        Call_mpmp source_level ibox child \<Rightarrow>
          3 \<le> source_level \<and> source_level < nlevels (w_tree w) \<and> child \<noteq> 0 \<and>
          (case column (box_child_ids (w_tree w)) ibox of
             Inl _ \<Rightarrow> False
           | Inr children \<Rightarrow> child \<in> set children)
      | _ \<Rightarrow> False)"

text \<open>
  What the frame property of the reference \<open>coarsen_multipoles\<close> needs of the list of
  source parent boxes: from level 2 on, the boxes listed for a level are boxes of that
  level.
\<close>

definition coarsen_listed_ok :: "tree \<Rightarrow> int list \<Rightarrow> int list \<Rightarrow> bool" where
  "coarsen_listed_ok t level_starts boxes =
     (tree_levels_ok t \<and> nat (nlevels t) < length level_starts \<and>
      (\<forall>lev. 2 \<le> lev \<and> lev < nat (nlevels t) \<longrightarrow>
         (\<forall>b \<in> set (level_boxes level_starts boxes lev). in_level t lev b)))"

text \<open>
  Kernel routines for the examples, in the manner of the constant kernel: every
  coefficient of a formed expansion is the number of sources, a translation hands the
  coefficients on, an evaluation gives every target the first coefficient, and the
  direct evaluation gives every target the number of sources. The status is always 0.
\<close>

definition row_count :: "real list list \<Rightarrow> nat" where
  "row_count pts = (case pts of [] \<Rightarrow> 0 | row # _ \<Rightarrow> length row)"

definition first_coefficient :: "complex list \<Rightarrow> complex" where
  "first_coefficient expn = (case expn of [] \<Rightarrow> 0 | c # _ \<Rightarrow> c)"

definition example_kernels :: kernels where
  "example_kernels = \<lparr>
     formmp = (\<lambda>rscale source center nterms zk kwargs.
                 (0, replicate (nat (nterms + 1)) (of_nat (row_count source)))),
     formta = (\<lambda>rscale source center nterms zk kwargs.
                 (0, replicate (nat (nterms + 1)) (of_nat (row_count source)))),
     mpmp = (\<lambda>rscale1 center1 expn1 rscale2 center2 nterms2 radius zk nquad. (expn1, 0)),
     locloc = (\<lambda>rscale1 center1 expn1 rscale2 center2 nterms2 radius zk nquad. (expn1, 0)),
     direct_eval = (\<lambda>src tgt zk kwargs g.
                      (replicate (row_count tgt) (of_nat (row_count src)), [])),
     mpeval = (\<lambda>rscale center expn ztarg zk g.
                 (replicate (row_count ztarg) (first_coefficient expn), [], 0)),
     taeval = (\<lambda>rscale center expn ztarg zk g.
                 (replicate (row_count ztarg) (first_coefficient expn), [], 0)) \<rparr>"

text \<open>A multipole buffer for the example: 1 on the levels 0 to 2 and 2 on level 3.\<close>

definition example_mpoles :: "complex list" where
  "example_mpoles = replicate 25 1 @ replicate 16 2"

text \<open>The source range, or the target range, of a box holds no particle.\<close>

definition source_range_empty :: "tree \<Rightarrow> int \<Rightarrow> bool" where
  "source_range_empty t ibox =
     (case get_source_slice t ibox of Inl _ \<Rightarrow> False | Inr pslice \<Rightarrow> snd pslice - fst pslice = 0)"

definition target_range_empty :: "wrangler \<Rightarrow> int \<Rightarrow> bool" where
  "target_range_empty w ibox =
     (case get_target_slice w ibox of Inl _ \<Rightarrow> False | Inr pslice \<Rightarrow> snd pslice - fst pslice = 0)"

text \<open>
  A kernel call is made for boxes with particles: the routines that read the sources of
  a box are called for a box whose source range is not empty, and the routines that
  evaluate at the targets of a box for a box whose target range is not empty.
\<close>

definition call_ranges_nonempty :: "wrangler \<Rightarrow> kernel_call \<Rightarrow> bool" where
  "call_ranges_nonempty w c =
     (case c of
        Call_formmp lev src_ibox \<Rightarrow> \<not> source_range_empty (w_tree w) src_ibox
      | Call_direct tgt_ibox src_ibox \<Rightarrow>
          \<not> target_range_empty w tgt_ibox \<and> \<not> source_range_empty (w_tree w) src_ibox
      | Call_formta lev tgt_ibox src_ibox \<Rightarrow> \<not> source_range_empty (w_tree w) src_ibox
      | Call_mpeval lev tgt_ibox src_ibox \<Rightarrow> \<not> target_range_empty w tgt_ibox
      | Call_taeval lev tgt_ibox \<Rightarrow> \<not> target_range_empty w tgt_ibox
      | Call_mpmp source_level ibox child \<Rightarrow> True
      | Call_locloc target_lev tgt_ibox src_ibox \<Rightarrow> True)"

text \<open>
  A well-formed wrangler: well-formed level data for the coefficient counts of its
  expansions, orders that are not negative, and the element type of the constructor.
\<close>

definition wrangler_ok :: "wrangler \<Rightarrow> bool" where
  "wrangler_ok w =
     (level_data_ok w (expansion_size w) \<and>
      (\<forall>lev < nat (nlevels (w_tree w)). 0 \<le> level_nterms w ! lev) \<and>
      dtype w = Complex128)"

text \<open>A per-level box list names, for every level, boxes of that level only.\<close>

definition listed_in_levels :: "tree \<Rightarrow> int list \<Rightarrow> int list \<Rightarrow> bool" where
  "listed_in_levels t level_starts boxes =
     (\<forall>lev < nat (nlevels t). \<forall>b \<in> set (level_boxes level_starts boxes lev). in_level t lev b)"

text \<open>The view of a level that a well-formed wrangler makes of a buffer of full length.\<close>

definition level_view :: "wrangler \<Rightarrow> int list \<Rightarrow> nat \<Rightarrow> view" where
  "level_view w offsets lev =
     \<lparr> v_start = nat (offsets ! lev),
       v_nrows = nat (level_start_box_nrs (w_tree w) ! Suc lev - level_start_box_nrs (w_tree w) ! lev),
       v_rowlen = nat (case expansion_size w (level_nterms w ! lev) of Inl _ \<Rightarrow> 0 | Inr sz \<Rightarrow> sz) \<rparr>"

text \<open>Where the row of box \<open>b\<close> of level \<open>lev\<close> starts in a buffer of full length.\<close>

definition row_start :: "wrangler \<Rightarrow> int list \<Rightarrow> nat \<Rightarrow> int \<Rightarrow> nat" where
  "row_start w offsets lev b =
     v_start (level_view w offsets lev)
       + nat (b - level_start_box_nrs (w_tree w) ! lev) * v_rowlen (level_view w offsets lev)"

text \<open>
  The coefficients of a box in a buffer of expansions, read as the passes read them:
  the view of the level of the box, indexed by the number of the box in its level.
\<close>

definition box_expansion :: "wrangler \<Rightarrow> complex list \<Rightarrow> int \<Rightarrow> int \<Rightarrow> error + complex list" where
  "box_expansion w exps lev ibox =
     bindE (expansions_view w exps lev) (\<lambda>(level_start_ibox, v).
       view_get exps v (ibox - level_start_ibox))"

text \<open>Interaction lists for the example in which box 6, which holds no particle, occurs.\<close>

definition example_all_boxes :: "int list" where
  "example_all_boxes = [0, 1, 2, 3, 4, 5, 6, 7, 8, 9, 10]"

definition example_weights :: "complex list" where
  "example_weights = replicate 10 1"

definition example_by_level :: "csr_list list" where
  "example_by_level =
     [\<lparr>csr_starts = [0, 0, 0], csr_lists = []\<rparr>,
      \<lparr>csr_starts = [0, 0, 0], csr_lists = []\<rparr>,
      \<lparr>csr_starts = [0, 0, 0], csr_lists = []\<rparr>,
      \<lparr>csr_starts = [0, 1, 2], csr_lists = [7, 10]\<rparr>]"

section \<open>Basic facts about the primitives\<close>

lemma bindE_Inr [simp]: "bindE (Inr x) f = f x"
  by (simp add: bindE_def)

lemma bindE_Inl [simp]: "bindE (Inl e) f = Inl e"
  by (simp add: bindE_def)

lemma bindE_eq_Inr: "bindE m f = Inr y \<longleftrightarrow> (\<exists>x. m = Inr x \<and> f x = Inr y)"
  by (cases m) auto

lemma foldE_append: "foldE f (xs @ ys) s = bindE (foldE f xs s) (foldE f ys)"
  by (induction xs arbitrary: s) (auto split: sum.splits)

lemma foldE_snoc: "foldE f (xs @ [x]) s = bindE (foldE f xs s) (f x)"
  by (simp add: foldE_append cong: sum.case_cong) (cases "foldE f xs s"; simp split: sum.splits)

lemma getitem_nonneg:
  "0 \<le> i \<Longrightarrow> i < int (length xs) \<Longrightarrow> getitem xs i = Inr (xs ! nat i)"
  by (simp add: getitem_def)

lemma getitem_nat: "n < length xs \<Longrightarrow> getitem xs (int n) = Inr (xs ! n)"
  by (simp add: getitem_def)

lemma getitem_nonneg_Inr:
  "0 \<le> i \<Longrightarrow> getitem xs i = Inr v \<longleftrightarrow> (i < int (length xs) \<and> v = xs ! nat i)"
  by (auto simp add: getitem_def)

lemma getitem_last: "xs \<noteq> [] \<Longrightarrow> getitem xs (-1) = Inr (last xs)"
  by (cases xs rule: rev_cases) (auto simp: getitem_def nth_append)

lemma py_range_nat: "py_range i = map int [0..<nat i]"
  by (simp add: py_range_def)

lemma all_less_list_all: "(\<forall>i<n. P i) \<longleftrightarrow> list_all P [0..<n]"
  by (auto simp: list_all_iff)

section \<open>The level offsets partition the flat buffer\<close>

lemma level_starts_prefix:
  assumes "\<forall>lev < n. Suc lev < length (level_start_box_nrs (w_tree w)) \<and> lev < length (level_nterms w) \<and>
        (\<exists>sz. ots (level_nterms w ! lev) = Inr sz)"
  shows "\<exists>r. foldE (level_starts_step w ots) (map int [0..<n]) [0] = Inr r \<and> length r = Suc n \<and>
           (\<forall>k \<le> n. r ! k = (\<Sum>lev<k. region_size w ots lev))"
  using assms
proof (induction n)
  case 0
  then show ?case by simp
next
  case (Suc n)
  then obtain r where r: "foldE (level_starts_step w ots) (map int [0..<n]) [0] = Inr r"
     "length r = Suc n" "\<forall>k \<le> n. r ! k = (\<Sum>lev<k. region_size w ots lev)" by auto
  from Suc.prems obtain sz where sz: "ots (level_nterms w ! n) = Inr sz"
     and l1: "Suc n < length (level_start_box_nrs (w_tree w))" and l2: "n < length (level_nterms w)" by auto
  have last: "last r = (\<Sum>lev<n. region_size w ots lev)"
    using r(2,3) by (cases r rule: rev_cases) (auto simp: nth_append)
  have rne: "r \<noteq> []" using r(2) by auto
  have step: "level_starts_step w ots (int n) r = Inr (r @ [last r + region_size w ots n])"
    using l1 l2 sz rne
    by (simp add: level_starts_step_def getitem_nonneg getitem_last region_size_def nat_add_distrib)
  have "\<forall>k \<le> Suc n. (r @ [last r + region_size w ots n]) ! k = (\<Sum>lev<k. region_size w ots lev)"
    using r(2,3) last by (auto simp: nth_append le_Suc_eq)
  then show ?case using r step by (simp add: foldE_snoc)
qed

lemma level_data_okD:
  assumes "level_data_ok w ots" "lev < nat (nlevels (w_tree w))"
  shows "Suc lev < length (level_start_box_nrs (w_tree w))"
    and "lev < length (level_nterms w)"
    and "level_start_box_nrs (w_tree w) ! lev \<le> level_start_box_nrs (w_tree w) ! Suc lev"
    and "\<exists>sz\<ge>0. ots (level_nterms w ! lev) = Inr sz"
proof -
  from assms have *: "Suc lev < length (level_start_box_nrs (w_tree w)) \<and>
      lev < length (level_nterms w) \<and>
      level_start_box_nrs (w_tree w) ! lev \<le> level_start_box_nrs (w_tree w) ! Suc lev \<and>
      (case ots (level_nterms w ! lev) of Inl _ \<Rightarrow> False | Inr sz \<Rightarrow> 0 \<le> sz)"
    unfolding level_data_ok_def by blast
  from * show "Suc lev < length (level_start_box_nrs (w_tree w))" by simp
  from * show "lev < length (level_nterms w)" by simp
  from * show "level_start_box_nrs (w_tree w) ! lev \<le> level_start_box_nrs (w_tree w) ! Suc lev"
    by simp
  from * show "\<exists>sz\<ge>0. ots (level_nterms w ! lev) = Inr sz"
    by (cases "ots (level_nterms w ! lev)") auto
qed

lemma region_size_nonneg:
  "level_data_ok w ots \<Longrightarrow> lev < nat (nlevels (w_tree w)) \<Longrightarrow> 0 \<le> region_size w ots lev"
  using level_data_okD(3,4) [of w ots lev]
  by (auto simp: region_size_def)

lemma level_starts_value:
  assumes "level_data_ok w ots"
  shows "\<exists>starts. expansions_level_starts w ots = Inr starts \<and>
           length starts = Suc (nat (nlevels (w_tree w))) \<and>
           (\<forall>k \<le> nat (nlevels (w_tree w)). starts ! k = (\<Sum>lev<k. region_size w ots lev))"
  unfolding expansions_level_starts_def py_range_nat
  by (rule level_starts_prefix) (use level_data_okD [OF assms] in blast)

lemma prefix_sum_mono:
  fixes f :: "nat \<Rightarrow> int"
  assumes "\<forall>l<n. 0 \<le> f l" "j \<le> k" "k \<le> n"
  shows "(\<Sum>l<j. f l) \<le> (\<Sum>l<k. f l)"
proof -
  have "(\<Sum>l<k. f l) = (\<Sum>l<j. f l) + (\<Sum>l\<in>{j..<k}. f l)"
    using assms(2) by (metis atLeast0LessThan le0 sum.atLeastLessThan_concat)
  moreover have "0 \<le> (\<Sum>l\<in>{j..<k}. f l)"
    using assms by (intro sum_nonneg) auto
  ultimately show ?thesis by simp
qed

text \<open>
  Claim C2. When the level data are well formed, \<open>_expansions_level_starts\<close> returns a
  list of offsets, one more than there are levels, that starts at 0 and does not
  decrease; the difference of two successive offsets is the coefficient count at the
  level's order times the number of boxes of the level; the last offset is the sum of
  all region sizes; and the index ranges between successive offsets are pairwise
  disjoint and together are exactly the indices below the last offset.
\<close>

theorem expansions_level_starts_partition:
  assumes ok: "level_data_ok w order_to_size"
  shows "\<exists>starts. expansions_level_starts w order_to_size = Inr starts \<and>
           length starts = Suc (nat (nlevels (w_tree w))) \<and>
           starts ! 0 = 0 \<and>
           sorted starts \<and>
           (\<forall>lev < nat (nlevels (w_tree w)).
              starts ! Suc lev - starts ! lev = region_size w order_to_size lev) \<and>
           last starts = (\<Sum>lev < nat (nlevels (w_tree w)). region_size w order_to_size lev) \<and>
           (\<forall>l1 l2. l1 < l2 \<longrightarrow> l2 < nat (nlevels (w_tree w)) \<longrightarrow>
              {starts ! l1 ..< starts ! Suc l1} \<inter> {starts ! l2 ..< starts ! Suc l2} = {}) \<and>
           (\<Union>lev < nat (nlevels (w_tree w)). {starts ! lev ..< starts ! Suc lev})
              = {0 ..< last starts}"
proof -
  define n where "n = nat (nlevels (w_tree w))"
  define f where "f = region_size w order_to_size"
  from level_starts_value [OF ok] obtain starts where
    run: "expansions_level_starts w order_to_size = Inr starts" and
    len: "length starts = Suc n" and
    val: "\<forall>k \<le> n. starts ! k = (\<Sum>lev<k. f lev)"
    by (auto simp: n_def f_def)
  have nonneg: "\<forall>l<n. 0 \<le> f l"
    using region_size_nonneg [OF ok] by (simp add: n_def f_def)
  have mono: "starts ! j \<le> starts ! k" if "j \<le> k" "k \<le> n" for j k
    using that val prefix_sum_mono [OF nonneg that] by simp
  have zero: "starts ! 0 = 0" using val by simp
  have srt: "sorted starts"
    unfolding sorted_iff_nth_mono using mono len by auto
  have diff: "\<forall>lev < n. starts ! Suc lev - starts ! lev = f lev"
    using val by simp
  have ne: "starts \<noteq> []" using len by auto
  have lastn: "last starts = starts ! n" using len by (simp add: last_conv_nth [OF ne])
  have lst: "last starts = (\<Sum>lev < n. f lev)"
    using lastn val by simp
  have disj: "{starts ! l1 ..< starts ! Suc l1} \<inter> {starts ! l2 ..< starts ! Suc l2} = {}"
    if "l1 < l2" "l2 < n" for l1 l2
    using mono [of "Suc l1" l2] that by auto
  have cover: "(\<Union>lev < n. {starts ! lev ..< starts ! Suc lev}) = {0 ..< starts ! n}"
  proof -
    have "(\<Union>lev < k. {starts ! lev ..< starts ! Suc lev}) = {0 ..< starts ! k}" if "k \<le> n" for k
      using that
    proof (induction k)
      case 0
      then show ?case using zero by simp
    next
      case (Suc k)
      have a: "starts ! 0 \<le> starts ! k" using mono [of 0 k] Suc.prems by simp
      have b: "starts ! k \<le> starts ! Suc k" using mono [of k "Suc k"] Suc.prems by simp
      have "(\<Union>lev < Suc k. {starts ! lev ..< starts ! Suc lev})
            = {0 ..< starts ! k} \<union> {starts ! k ..< starts ! Suc k}"
        using Suc by (simp add: lessThan_Suc Un_commute)
      also have "\<dots> = {0 ..< starts ! Suc k}"
        using a b zero by auto
      finally show ?case .
    qed
    then show ?thesis by simp
  qed
  have cover': "(\<Union>lev < n. {starts ! lev ..< starts ! Suc lev}) = {0 ..< last starts}"
    using cover lastn by simp
  have disj': "\<forall>l1 l2. l1 < l2 \<longrightarrow> l2 < n \<longrightarrow>
      {starts ! l1 ..< starts ! Suc l1} \<inter> {starts ! l2 ..< starts ! Suc l2} = {}"
    using disj by blast
  show ?thesis
    unfolding n_def [symmetric] f_def [symmetric]
    by (rule exI [of _ starts]) (intro conjI run len zero srt diff lst disj' cover')
qed

lemma example_nlevels: "nat (nlevels (w_tree example_wrangler)) = 4"
  by (simp add: example_wrangler_def example_tree_def)

lemma upt_0_4: "[0..<4] = [0, 1, 2, 3]"
  by (simp add: upt_conv_Cons)

lemma example_level_data_ok: "level_data_ok example_wrangler (expansion_size example_wrangler)"
  unfolding level_data_ok_def all_less_list_all example_nlevels
  by (simp add: upt_0_4 example_wrangler_def example_tree_def
        expansion_size_def expansion_shape_def product_def)

theorem expansions_level_starts_partition_witness:
  "level_data_ok example_wrangler (expansion_size example_wrangler) \<and>
   (\<exists>starts. expansions_level_starts example_wrangler (expansion_size example_wrangler) = Inr starts \<and>
      length starts = 5 \<and> starts ! 0 = 0 \<and> sorted starts \<and>
      starts ! 3 - starts ! 2 = region_size example_wrangler (expansion_size example_wrangler) 2 \<and>
      region_size example_wrangler (expansion_size example_wrangler) 2 = 4 * 4 \<and>
      {starts ! 1 ..< starts ! 2} \<inter> {starts ! 3 ..< starts ! 4} = {})"
proof -
  note ok = example_level_data_ok
  have rs: "region_size example_wrangler (expansion_size example_wrangler) 2 = 4 * 4"
    by (simp add: region_size_def example_wrangler_def example_tree_def
        expansion_size_def expansion_shape_def product_def)
  from expansions_level_starts_partition [OF ok, unfolded example_nlevels] obtain starts where
    s: "expansions_level_starts example_wrangler (expansion_size example_wrangler) = Inr starts"
      "length starts = Suc 4" "starts ! 0 = 0" "sorted starts"
      "\<forall>lev < 4. starts ! Suc lev - starts ! lev
          = region_size example_wrangler (expansion_size example_wrangler) lev"
      "\<forall>l1 l2. l1 < l2 \<longrightarrow> l2 < 4 \<longrightarrow>
              {starts ! l1 ..< starts ! Suc l1} \<inter> {starts ! l2 ..< starts ! Suc l2} = {}"
    by blast
  have d: "starts ! 3 - starts ! 2 = region_size example_wrangler (expansion_size example_wrangler) 2"
    using s(5) [rule_format, of 2] by (simp add: eval_nat_numeral)
  have i: "{starts ! 1 ..< starts ! 2} \<inter> {starts ! 3 ..< starts ! 4} = {}"
    using s(6) [rule_format, of 1 3] by (simp add: eval_nat_numeral)
  have l: "length starts = 5" using s(2) by simp
  show ?thesis
    by (intro conjI exI [of _ starts] ok s(1) l s(3) s(4) d rs i)
qed

section \<open>Reordering\<close>

lemma mapE_all_Inr:
  "\<forall>x \<in> set xs. \<exists>y. f x = Inr y \<Longrightarrow> mapE f xs = Inr (map (\<lambda>x. projr (f x)) xs)"
  by (induction xs) auto

lemma take_ids_in_range:
  assumes "\<forall>i \<in> set ids. 0 \<le> i \<and> i < int (length xs)"
  shows "take_ids xs ids = Inr (map (\<lambda>i. xs ! nat i) ids)"
proof -
  have "mapE (getitem xs) ids = Inr (map (\<lambda>i. projr (getitem xs i)) ids)"
    using assms by (intro mapE_all_Inr) (auto simp: getitem_nonneg)
  moreover have "map (\<lambda>i. projr (getitem xs i)) ids = map (\<lambda>i. xs ! nat i) ids"
    using assms by (auto simp: getitem_nonneg)
  ultimately show ?thesis by (simp add: take_ids_def)
qed

text \<open>
  Claim C5, as amended. On a tree whose targets are its sources, reordering a vector
  with one entry per particle into tree order and back into user order returns the
  vector.
\<close>

theorem reorder_roundtrip:
  assumes "targets_are_sources t (length x)"
  shows "bindE (reorder_sources t x) (reorder_potentials t) = Inr x"
proof -
  let ?n = "length x"
  let ?u = "user_source_ids t" and ?s = "sorted_target_ids t"
  from assms have lu: "length ?u = ?n" and ls: "length ?s = ?n"
    and u: "\<forall>i < ?n. 0 \<le> ?u ! i \<and> ?u ! i < int ?n"
    and s: "\<forall>j < ?n. 0 \<le> ?s ! j \<and> ?s ! j < int ?n \<and> ?u ! nat (?s ! j) = int j"
    by (simp_all add: targets_are_sources_def)
  have "\<forall>i \<in> set ?u. 0 \<le> i \<and> i < int ?n"
    using u lu by (auto simp: in_set_conv_nth)
  then have 1: "reorder_sources t x = Inr (map (\<lambda>i. x ! nat i) ?u)"
    by (simp add: reorder_sources_def take_ids_in_range)
  have "\<forall>j \<in> set ?s. 0 \<le> j \<and> j < int (length (map (\<lambda>i. x ! nat i) ?u))"
    using s ls lu by (auto simp: in_set_conv_nth)
  then have 2: "reorder_potentials t (map (\<lambda>i. x ! nat i) ?u)
      = Inr (map (\<lambda>j. map (\<lambda>i. x ! nat i) ?u ! nat j) ?s)"
    by (simp add: reorder_potentials_def take_ids_in_range)
  have "map (\<lambda>j. map (\<lambda>i. x ! nat i) ?u ! nat j) ?s = x"
  proof (rule nth_equalityI)
    show "length (map (\<lambda>j. map (\<lambda>i. x ! nat i) ?u ! nat j) ?s) = length x"
      using ls by simp
  next
    fix k assume "k < length (map (\<lambda>j. map (\<lambda>i. x ! nat i) ?u ! nat j) ?s)"
    then have k: "k < ?n" using ls by simp
    with s have a: "0 \<le> ?s ! k" "?s ! k < int ?n" "?u ! nat (?s ! k) = int k" by auto
    then have "nat (?s ! k) < length ?u" using lu by simp
    then show "map (\<lambda>j. map (\<lambda>i. x ! nat i) ?u ! nat j) ?s ! k = x ! k"
      using k ls a by simp
  qed
  with 1 2 show ?thesis by simp
qed

lemma example_targets_are_sources: "targets_are_sources example_tree 10"
  unfolding targets_are_sources_def all_less_list_all
  by (simp add: example_tree_def upt_conv_Cons)

theorem reorder_roundtrip_witness:
  "targets_are_sources example_tree (length [10, 11, 12, 13, 14, 15, 16, 17, 18, 19 :: real]) \<and>
   bindE (reorder_sources example_tree [10, 11, 12, 13, 14, 15, 16, 17, 18, 19 :: real])
     (reorder_potentials example_tree) = Inr [10, 11, 12, 13, 14, 15, 16, 17, 18, 19]"
proof -
  have "length [10, 11, 12, 13, 14, 15, 16, 17, 18, 19 :: real] = 10" by simp
  then have h: "targets_are_sources example_tree
      (length [10, 11, 12, 13, 14, 15, 16, 17, 18, 19 :: real])"
    using example_targets_are_sources by metis
  show ?thesis using h reorder_roundtrip [OF h] by blast
qed

theorem reorder_roundtrip_counterexample:
  "bindE (reorder_sources separate_targets_tree [10, 11, 12, 13, 14, 15, 16, 17, 18, 19 :: real])
     (reorder_potentials separate_targets_tree) = Inr [11, 13, 10] \<and>
   bindE (reorder_sources separate_targets_tree [10, 11, 12, 13, 14, 15, 16, 17, 18, 19 :: real])
     (reorder_potentials separate_targets_tree) \<noteq> Inr [10, 11, 12, 13, 14, 15, 16, 17, 18, 19]"
  by (simp add: reorder_sources_def reorder_potentials_def take_ids_def getitem_def
      separate_targets_tree_def example_tree_def)

section \<open>Output finalization\<close>

text \<open>
  Claim C7. \<open>finalize_potentials\<close> returns the potential times a scale factor fixed by
  the kernel letter and the dimension alone: \<open>-1/(2\<pi>)\<close> for Laplace in two dimensions,
  applied to the real part of the potential; 1 for Helmholtz in two dimensions; and
  \<open>1/(4\<pi>)\<close> in three dimensions.
\<close>

theorem finalize_potentials_scaling:
  "(eqn_letter w = ''l'' \<and> dim w = 2 \<longrightarrow>
      finalize_potentials w p = Inr (np_mul_scalar (np_real p) (- 1 / (2 * pi))) \<and>
      finalize_potentials w (ComplexArr zs)
        = Inr (RealArr (map (\<lambda>z. Re z * (- 1 / (2 * pi))) zs))) \<and>
   (eqn_letter w = ''h'' \<and> dim w = 2 \<longrightarrow>
      finalize_potentials w p = Inr (np_mul_scalar p 1) \<and>
      finalize_potentials w (ComplexArr zs) = Inr (ComplexArr (map (\<lambda>z. z * 1) zs))) \<and>
   (eqn_letter w \<in> {''l'', ''h''} \<and> dim w = 3 \<longrightarrow>
      finalize_potentials w p = Inr (np_mul_scalar p (1 / (4 * pi))) \<and>
      finalize_potentials w (ComplexArr zs)
        = Inr (ComplexArr (map (\<lambda>z. z * of_real (1 / (4 * pi))) zs))) \<and>
   (eqn_letter w = eqn_letter w' \<and> dim w = dim w' \<longrightarrow>
      finalize_potentials w p = finalize_potentials w' p)"
  by (auto simp: finalize_potentials_def scale_factor_def comp_def)

theorem finalize_potentials_scaling_witness:
  "eqn_letter example_wrangler = ''l'' \<and> dim example_wrangler = 2 \<and>
   finalize_potentials example_wrangler (ComplexArr [Complex 2 5, 4])
     = Inr (RealArr [2 * (- 1 / (2 * pi)), 4 * (- 1 / (2 * pi))]) \<and>
   eqn_letter (example_wrangler\<lparr>eqn_letter := ''h''\<rparr>) = ''h'' \<and>
   finalize_potentials (example_wrangler\<lparr>eqn_letter := ''h''\<rparr>) (ComplexArr [Complex 2 5, 4])
     = Inr (ComplexArr [Complex 2 5, 4]) \<and>
   finalize_potentials (example_wrangler\<lparr>dim := 3\<rparr>) (ComplexArr [Complex 2 5, 4])
     = Inr (ComplexArr [Complex 2 5 * of_real (1 / (4 * pi)), 4 * of_real (1 / (4 * pi))])"
  using finalize_potentials_scaling [of example_wrangler _ "[Complex 2 5, 4]"]
    finalize_potentials_scaling [of "example_wrangler\<lparr>eqn_letter := ''h''\<rparr>" _ "[Complex 2 5, 4]"]
    finalize_potentials_scaling [of "example_wrangler\<lparr>dim := 3\<rparr>" _ "[Complex 2 5, 4]"]
  by (simp add: example_wrangler_def)

lemma np_real_idem: "np_real (np_real a) = np_real a"
  by (cases a) auto

lemma real_view_read: "heap_read h (real_view h r) = np_real (heap_read h r)"
  by (cases r) (auto simp: np_real_idem split: ndarray.splits)

lemma heap_read_append: "ref_addr r < length h \<Longrightarrow> heap_read (h @ hs) r = heap_read h r"
  by (cases r) (auto simp: nth_append)

text \<open>
  Claim C10. \<open>finalize_potentials\<close> writes only to an array it allocates: every array of
  the store, and so the argument, is after the call what it was before; the result is
  a new array; its contents are those the method computes from the contents of the
  argument; and two calls with the same letter and dimension on arguments with equal
  contents return results with equal contents.
\<close>

theorem finalize_potentials_no_mutation:
  assumes "ref_addr p < length h"
    and "finalize_potentials_heap w h p = Inr (h', r)"
  shows "take (length h) h' = h \<and> heap_read h' p = heap_read h p \<and>
         r = Whole (length h) \<and> length h' = Suc (length h) \<and>
         finalize_potentials w (heap_read h p) = Inr (heap_read h' r) \<and>
         (\<forall>w2 h2 p2. eqn_letter w2 = eqn_letter w \<and> dim w2 = dim w \<and>
             heap_read h2 p2 = heap_read h p \<longrightarrow>
             (\<exists>h2' r2. finalize_potentials_heap w2 h2 p2 = Inr (h2', r2) \<and>
                        heap_read h2' r2 = heap_read h' r))"
proof -
  from assms(2) obtain c where c: "scale_factor w = Inr c"
    by (auto simp: finalize_potentials_heap_def bindE_eq_Inr)
  define q where "q = (if eqn_letter w = ''l'' \<and> dim w = 2 then real_view h p else p)"
  define v where "v = np_mul_scalar (heap_read h q) c"
  from assms(2) c have h': "h' = h @ [v]" and r: "r = Whole (length h)"
    by (auto simp: finalize_potentials_heap_def heap_alloc_def q_def v_def Let_def)
  have rq: "heap_read h q = (if eqn_letter w = ''l'' \<and> dim w = 2 then np_real (heap_read h p)
                            else heap_read h p)"
    by (simp add: q_def real_view_read)
  have 1: "take (length h) h' = h" by (simp add: h')
  have 2: "heap_read h' p = heap_read h p"
    using assms(1) by (simp add: h' heap_read_append)
  have 3: "length h' = Suc (length h)" by (simp add: h')
  have rr: "heap_read h' r = v" by (simp add: h' r)
  have 4: "finalize_potentials w (heap_read h p) = Inr (heap_read h' r)"
    using c rq by (simp add: finalize_potentials_def rr v_def Let_def)
  have 5: "\<exists>h2' r2. finalize_potentials_heap w2 h2 p2 = Inr (h2', r2) \<and>
                        heap_read h2' r2 = heap_read h' r"
    if "eqn_letter w2 = eqn_letter w \<and> dim w2 = dim w \<and> heap_read h2 p2 = heap_read h p"
    for w2 h2 p2
  proof -
    from that have "scale_factor w2 = scale_factor w" by (simp add: scale_factor_def)
    with c have c2: "scale_factor w2 = Inr c" by simp
    have "heap_read h2 (if eqn_letter w2 = ''l'' \<and> dim w2 = 2 then real_view h2 p2 else p2)
        = heap_read h q"
      using that rq by (simp add: real_view_read)
    then show ?thesis
      using c2 by (simp add: finalize_potentials_heap_def heap_alloc_def Let_def rr v_def)
  qed
  from 1 2 r 3 4 5 show ?thesis by blast
qed

theorem finalize_potentials_no_mutation_witness:
  "ref_addr (Whole 0) < length [ComplexArr [Complex 2 5, 4]] \<and>
   finalize_potentials_heap example_wrangler [ComplexArr [Complex 2 5, 4]] (Whole 0)
     = Inr ([ComplexArr [Complex 2 5, 4], RealArr [2 * (- 1 / (2 * pi)), 4 * (- 1 / (2 * pi))]],
            Whole 1) \<and>
   heap_read [ComplexArr [Complex 2 5, 4], RealArr [2 * (- 1 / (2 * pi)), 4 * (- 1 / (2 * pi))]]
     (Whole 0) = heap_read [ComplexArr [Complex 2 5, 4]] (Whole 0)"
proof -
  have a: "ref_addr (Whole 0) < length [ComplexArr [Complex 2 5, 4]]" by simp
  have b: "finalize_potentials_heap example_wrangler [ComplexArr [Complex 2 5, 4]] (Whole 0)
     = Inr ([ComplexArr [Complex 2 5, 4], RealArr [2 * (- 1 / (2 * pi)), 4 * (- 1 / (2 * pi))]],
            Whole 1)"
    by (simp add: finalize_potentials_heap_def scale_factor_def heap_alloc_def
        example_wrangler_def)
  from finalize_potentials_no_mutation [OF a b] a b show ?thesis by blast
qed

section \<open>Construction and buffer allocation\<close>

lemma mapE_total: "mapE (\<lambda>x. Inr (f x)) xs = Inr (map f xs)"
  by (induction xs) auto

lemma init_both_orders:
  "nterms \<noteq> None \<Longrightarrow> f \<noteq> None \<Longrightarrow> init t k f g dv dar nterms = Inl TypeError"
  by (simp add: init_def)

lemma init_no_dipoles:
  "init t k (Some fn) g None dar None
     = Inr \<lparr> w_tree = t, eqn_letter = (if k = 0 then ''l'' else ''h''),
             kernel_kwargs = (if k = 0 then None else Some k),
             level_nterms = map (fn t) (py_range (nlevels t)), dtype = Complex128,
             ifgrad = g, dim = dimensions t, dipole_vec = None, dp_suffix = [] \<rparr>"
  by (simp add: init_def Let_def mapE_total)

lemma init_fields:
  assumes "init t k f g dv dar nterms = Inr w"
  shows "dtype w = Complex128" and "dim w = dimensions t" and "w_tree w = t"
    and "eqn_letter w = (if k = 0 then ''l'' else ''h'')"
  using assms
  by (auto simp: init_def Let_def bindE_eq_Inr split: if_splits option.splits)

lemma level_starts_last_nonneg:
  assumes "level_data_ok w ots"
  shows "\<exists>starts. expansions_level_starts w ots = Inr starts \<and> starts \<noteq> [] \<and> 0 \<le> last starts"
proof -
  from level_starts_value [OF assms] obtain starts where
    s: "expansions_level_starts w ots = Inr starts"
       "length starts = Suc (nat (nlevels (w_tree w)))"
       "\<forall>k \<le> nat (nlevels (w_tree w)). starts ! k = (\<Sum>lev<k. region_size w ots lev)"
    by blast
  have ne: "starts \<noteq> []" using s(2) by auto
  have "last starts = (\<Sum>lev<nat (nlevels (w_tree w)). region_size w ots lev)"
    using s(2,3) by (simp add: last_conv_nth [OF ne])
  also have "0 \<le> \<dots>"
    using region_size_nonneg [OF assms] by (intro sum_nonneg) auto
  finally show ?thesis using s(1) ne by blast
qed

text \<open>
  Claim C8, as amended. For a wrangler built by the constructor, on well-formed level
  data, both allocators return a zero-filled buffer whose length is the last level
  offset and whose element type is \<open>complex128\<close>, for the Laplace and for the Helmholtz
  letter alike.
\<close>

theorem expansion_zeros_complex:
  assumes "init t k f g dv dar nterms = Inr w"
    and "level_data_ok w (expansion_size w)"
  shows "\<exists>starts. multipole_expansions_level_starts w = Inr starts \<and>
           local_expansions_level_starts w = Inr starts \<and> starts \<noteq> [] \<and>
           multipole_expansion_zeros w = Inr (ComplexArr (replicate (nat (last starts)) 0)) \<and>
           local_expansion_zeros w = Inr (ComplexArr (replicate (nat (last starts)) 0))"
proof -
  from level_starts_last_nonneg [OF assms(2)] obtain starts where
    s: "expansions_level_starts w (expansion_size w) = Inr starts" "starts \<noteq> []" "0 \<le> last starts"
    by blast
  have d: "dtype w = Complex128" using init_fields(1) [OF assms(1)] .
  have m: "multipole_expansion_zeros w = Inr (ComplexArr (replicate (nat (last starts)) 0))"
    using s d by (simp add: multipole_expansion_zeros_def multipole_expansions_level_starts_def
        getitem_last np_zeros_def)
  have l: "local_expansion_zeros w = Inr (ComplexArr (replicate (nat (last starts)) 0))"
    using s d by (simp add: local_expansion_zeros_def local_expansions_level_starts_def
        getitem_last np_zeros_def)
  show ?thesis
    using s m l
    by (simp add: multipole_expansions_level_starts_def local_expansions_level_starts_def)
qed

lemma example_py_range: "py_range 4 = [0, 1, 2, 3]"
  by (simp add: py_range_def upt_conv_Cons)

lemma example_init:
  "init example_tree 0 (Some example_level_to_nterms) False None False None = Inr example_wrangler"
  by (simp add: init_no_dipoles example_wrangler_def example_tree_def example_py_range
      example_level_to_nterms_def)

lemma example_level_starts:
  "multipole_expansions_level_starts example_wrangler = Inr [0, 3, 9, 25, 41]"
  by (simp add: multipole_expansions_level_starts_def expansions_level_starts_def
      level_starts_step_def expansion_size_def expansion_shape_def product_def getitem_def
      example_wrangler_def example_tree_def example_py_range)

theorem expansion_zeros_complex_witness:
  "init example_tree 0 (Some example_level_to_nterms) False None False None = Inr example_wrangler \<and>
   level_data_ok example_wrangler (expansion_size example_wrangler) \<and>
   multipole_expansion_zeros example_wrangler = Inr (ComplexArr (replicate (nat 41) 0)) \<and>
   local_expansion_zeros example_wrangler = Inr (ComplexArr (replicate (nat 41) 0))"
  using expansion_zeros_complex [OF example_init example_level_data_ok]
    example_init example_level_data_ok example_level_starts
  by auto

theorem expansion_zeros_dtype_counterexample:
  "init example_tree 0 (Some example_level_to_nterms) False None False None = Inr example_wrangler \<and>
   eqn_letter example_wrangler = ''l'' \<and>
   multipole_expansion_zeros example_wrangler = Inr (ComplexArr (replicate 41 0)) \<and>
   arr_dtype (ComplexArr (replicate 41 0)) \<noteq> Float64"
  using example_init example_level_starts
  by (simp add: multipole_expansion_zeros_def getitem_def np_zeros_def example_wrangler_def)

text \<open>
  Claim C9, as amended. Passing both \<open>nterms\<close> and \<open>fmm_level_to_nterms\<close> makes the
  constructor raise \<open>TypeError\<close>. A dimension other than 2 or 3 does not: with a level
  order callable and no dipole vector the constructor returns a wrangler of that
  dimension, and on every wrangler it returns for such a tree \<open>expansion_shape\<close> raises
  \<open>ValueError\<close> when it is called.
\<close>

theorem init_parameter_errors:
  "(nterms \<noteq> None \<and> f \<noteq> None \<longrightarrow> init t k f g dv dar nterms = Inl TypeError) \<and>
   (dimensions t \<noteq> 2 \<and> dimensions t \<noteq> 3 \<longrightarrow>
      (\<exists>w. init t k (Some fn) g None dar None = Inr w \<and> dim w = dimensions t) \<and>
      (\<forall>w order. init t k f g dv dar nterms = Inr w \<longrightarrow> expansion_shape w order = Inl ValueError))"
proof (intro conjI impI allI)
  assume "nterms \<noteq> None \<and> f \<noteq> None"
  then show "init t k f g dv dar nterms = Inl TypeError" by (simp add: init_both_orders)
next
  show "\<exists>w. init t k (Some fn) g None dar None = Inr w \<and> dim w = dimensions t"
    by (simp add: init_no_dipoles)
next
  fix w order
  assume d: "dimensions t \<noteq> 2 \<and> dimensions t \<noteq> 3" and i: "init t k f g dv dar nterms = Inr w"
  from init_fields(2) [OF i] d show "expansion_shape w order = Inl ValueError"
    by (simp add: expansion_shape_def)
qed

theorem init_parameter_errors_witness:
  "init example_tree 0 (Some example_level_to_nterms) False None False (Some 5) = Inl TypeError \<and>
   dimensions (example_tree\<lparr>dimensions := 1\<rparr>) \<noteq> 2 \<and>
   dimensions (example_tree\<lparr>dimensions := 1\<rparr>) \<noteq> 3 \<and>
   init (example_tree\<lparr>dimensions := 1\<rparr>) 0 (Some example_level_to_nterms) False None False None
     = Inr (example_wrangler\<lparr>w_tree := example_tree\<lparr>dimensions := 1\<rparr>, dim := 1\<rparr>) \<and>
   expansion_shape (example_wrangler\<lparr>w_tree := example_tree\<lparr>dimensions := 1\<rparr>, dim := 1\<rparr>) 2
     = Inl ValueError"
proof -
  have i: "init (example_tree\<lparr>dimensions := 1\<rparr>) 0 (Some example_level_to_nterms) False None False None
     = Inr (example_wrangler\<lparr>w_tree := example_tree\<lparr>dimensions := 1\<rparr>, dim := 1\<rparr>)"
    by (simp add: init_no_dipoles example_wrangler_def example_tree_def example_py_range
      example_level_to_nterms_def)
  have d: "dimensions (example_tree\<lparr>dimensions := 1\<rparr>) \<noteq> 2 \<and>
      dimensions (example_tree\<lparr>dimensions := 1\<rparr>) \<noteq> 3" by simp
  from init_parameter_errors [of "Some 5" "Some example_level_to_nterms" example_tree 0 False None False]
  have a: "init example_tree 0 (Some example_level_to_nterms) False None False (Some 5) = Inl TypeError"
    by simp
  from init_parameter_errors [of None "Some example_level_to_nterms" "example_tree\<lparr>dimensions := 1\<rparr>"
      0 False None False] d i
  have b: "expansion_shape (example_wrangler\<lparr>w_tree := example_tree\<lparr>dimensions := 1\<rparr>, dim := 1\<rparr>) 2
     = Inl ValueError" by blast
  from a d i b show ?thesis by blast
qed

theorem init_dimension_counterexample:
  "init (example_tree\<lparr>dimensions := 1\<rparr>) 0 (Some example_level_to_nterms) False None False None
     = Inr (example_wrangler\<lparr>w_tree := example_tree\<lparr>dimensions := 1\<rparr>, dim := 1\<rparr>)"
  by (simp add: init_no_dipoles example_wrangler_def example_tree_def example_py_range
      example_level_to_nterms_def)

section \<open>Array updates\<close>

lemma index_nat_nonneg [simp]: "0 \<le> i \<Longrightarrow> index_nat n i = nat i"
  by (simp add: index_nat_def)

lemma additem_valid:
  "0 \<le> i \<Longrightarrow> i < int (length xs) \<Longrightarrow> additem xs i v = Inr (xs[nat i := xs ! nat i + v])"
  by (simp add: additem_def getitem_nonneg)

lemma additem_length: "additem xs i v = Inr ys \<Longrightarrow> length ys = length xs"
  by (auto simp: additem_def bindE_eq_Inr)

lemma clamp_index_nonneg: "0 \<le> i \<Longrightarrow> clamp_index n i = min n (nat i)"
  unfolding clamp_index_def Let_def by (simp add: min_def max_def) linarith

lemma py_slice_nonneg:
  "0 \<le> a \<Longrightarrow> 0 \<le> b \<Longrightarrow>
     py_slice xs a b = take (min (length xs) (nat b) - min (length xs) (nat a))
                         (drop (min (length xs) (nat a)) xs)"
  by (simp add: py_slice_def clamp_index_nonneg Let_def)

lemma unpack2_slice:
  assumes "0 \<le> i" "Suc (nat i) < length xs"
  shows "unpack2 (py_slice xs i (i + 2)) = Inr (xs ! nat i, xs ! Suc (nat i))"
proof -
  have n: "nat (i + 2) = nat i + 2" using assms by (simp add: nat_add_distrib)
  have m1: "min (length xs) (nat i) = nat i" using assms by simp
  have m2: "min (length xs) (nat i + 2) = nat i + 2" using assms by simp
  have "take 2 (drop (nat i) xs) = [xs ! nat i, xs ! Suc (nat i)]"
    using assms
    by (metis Cons_nth_drop_Suc Suc_lessD numeral_2_eq_2 take0 take_Suc_Cons)
  moreover have "py_slice xs i (i + 2) = take 2 (drop (nat i) xs)"
    using assms by (simp add: py_slice_nonneg n m1 m2)
  ultimately show ?thesis by (simp add: unpack2_def)
qed

lemma py_range2_upt: "py_range2 1 n = map int [1..<nat n]"
proof (cases "1 \<le> n")
  case True
  have "map (\<lambda>k. 1 + int k) [0..<nat (n - 1)] = map int (map Suc [0..<nat (n - 1)])"
    by simp
  also have "map Suc [0..<nat (n - 1)] = [1..<Suc (nat (n - 1))]"
    by (simp add: map_Suc_upt)
  also have "Suc (nat (n - 1)) = nat n" using True by simp
  finally show ?thesis by (simp add: py_range2_def)
next
  case False
  then show ?thesis by (simp add: py_range2_def)
qed

section \<open>Level ranges\<close>

lemma level_starts_mono:
  assumes "tree_levels_ok t" "l \<le> l'" "l' \<le> nat (nlevels t)"
  shows "level_start_box_nrs t ! l \<le> level_start_box_nrs t ! l'"
  using assms(2,3)
proof (induction l' rule: dec_induct)
  case base
  show ?case by simp
next
  case (step k)
  have "level_start_box_nrs t ! k \<le> level_start_box_nrs t ! Suc k"
    using assms(1) step.prems by (simp add: tree_levels_ok_def)
  with step show ?case by simp
qed

lemma in_level_bounds:
  assumes "tree_levels_ok t" "lev < nat (nlevels t)" "in_level t lev b"
  shows "0 \<le> b" and "b < nboxes t"
proof -
  have "level_start_box_nrs t ! 0 \<le> level_start_box_nrs t ! lev"
    using level_starts_mono [OF assms(1), of 0 lev] assms(2) by simp
  then show "0 \<le> b" using assms by (simp add: tree_levels_ok_def in_level_def)
  have "level_start_box_nrs t ! Suc lev \<le> level_start_box_nrs t ! nat (nlevels t)"
    using level_starts_mono [OF assms(1), of "Suc lev" "nat (nlevels t)"] assms(2) by simp
  then show "b < nboxes t" using assms by (simp add: tree_levels_ok_def in_level_def)
qed

lemma in_level_less:
  assumes "tree_levels_ok t" "l < l'" "l' < nat (nlevels t)" "in_level t l b" "in_level t l' b'"
  shows "b < b'"
proof -
  have "level_start_box_nrs t ! Suc l \<le> level_start_box_nrs t ! l'"
    using level_starts_mono [OF assms(1), of "Suc l" l'] assms(2,3) by simp
  then show ?thesis using assms(4,5) by (simp add: in_level_def)
qed

lemma in_level_unique:
  assumes "tree_levels_ok t" "l < nat (nlevels t)" "l' < nat (nlevels t)"
    "in_level t l b" "in_level t l' b"
  shows "l = l'"
proof (rule ccontr)
  assume "l \<noteq> l'"
  then consider "l < l'" | "l' < l" by linarith
  then show False
    using in_level_less [OF assms(1) _ assms(3) assms(4) assms(5)]
      in_level_less [OF assms(1) _ assms(2) assms(5) assms(4)] by cases auto
qed

section \<open>The downward pass of the reference wrangler\<close>

lemma c1_refine_boxes:
  assumes "distinct xs"
    and "\<forall>b \<in> set xs. 0 \<le> b \<and> b < int (length L) \<and> nat b < length (box_parent_ids t) \<and>
           0 \<le> box_parent_ids t ! nat b \<and> box_parent_ids t ! nat b < int (length L) \<and>
           box_parent_ids t ! nat b \<notin> set xs"
  shows "foldE (c1_refine_box t) xs L =
           Inr (map (\<lambda>k. if int k \<in> set xs then L ! k + L ! nat (box_parent_ids t ! k) else L ! k)
                  [0..<length L])"
  using assms
proof (induction xs arbitrary: L)
  case Nil
  show ?case by (simp add: map_nth)
next
  case (Cons b xs)
  let ?P = "box_parent_ids t"
  let ?L' = "L[nat b := L ! nat b + L ! nat (?P ! nat b)]"
  from Cons.prems have b: "0 \<le> b" "b < int (length L)" "nat b < length ?P"
    "0 \<le> ?P ! nat b" "?P ! nat b < int (length L)" "?P ! nat b \<noteq> b" "b \<notin> set xs"
    by auto
  have step: "c1_refine_box t b L = Inr ?L'"
    using b by (simp add: c1_refine_box_def getitem_nonneg additem_valid)
  have pre: "\<forall>c \<in> set xs. 0 \<le> c \<and> c < int (length ?L') \<and> nat c < length ?P \<and>
           0 \<le> ?P ! nat c \<and> ?P ! nat c < int (length ?L') \<and> ?P ! nat c \<notin> set xs"
    using Cons.prems by auto
  have dist: "distinct xs" using Cons.prems by simp
  have "foldE (c1_refine_box t) (b # xs) L = foldE (c1_refine_box t) xs ?L'"
    using step by simp
  also have "\<dots> = Inr (map (\<lambda>k. if int k \<in> set xs then ?L' ! k + ?L' ! nat (?P ! k) else ?L' ! k)
                  [0..<length ?L'])"
    by (rule Cons.IH [OF dist pre])
  also have "map (\<lambda>k. if int k \<in> set xs then ?L' ! k + ?L' ! nat (?P ! k) else ?L' ! k)
                  [0..<length ?L']
      = map (\<lambda>k. if int k \<in> set (b # xs) then L ! k + L ! nat (?P ! k) else L ! k) [0..<length L]"
  proof (rule nth_equalityI)
    show "length (map (\<lambda>k. if int k \<in> set xs then ?L' ! k + ?L' ! nat (?P ! k) else ?L' ! k)
                  [0..<length ?L'])
      = length (map (\<lambda>k. if int k \<in> set (b # xs) then L ! k + L ! nat (?P ! k) else L ! k)
                  [0..<length L])" by simp
  next
    fix k assume "k < length (map (\<lambda>k. if int k \<in> set xs then ?L' ! k + ?L' ! nat (?P ! k) else ?L' ! k)
                  [0..<length ?L'])"
    then have k: "k < length L" by simp
    show "map (\<lambda>k. if int k \<in> set xs then ?L' ! k + ?L' ! nat (?P ! k) else ?L' ! k)
                  [0..<length ?L'] ! k
      = map (\<lambda>k. if int k \<in> set (b # xs) then L ! k + L ! nat (?P ! k) else L ! k)
                  [0..<length L] ! k"
    proof (cases "int k \<in> set xs")
      case True
      then have kb: "k \<noteq> nat b" using b by auto
      from True Cons.prems have pk: "0 \<le> ?P ! k" "?P ! k \<noteq> b" by auto
      then have "nat (?P ! k) \<noteq> nat b" using b(1) by simp
      with True kb k show ?thesis by simp
    next
      case False
      show ?thesis
      proof (cases "k = nat b")
        case True
        then have "int k = b" using b by simp
        with False k True show ?thesis by simp
      next
        case nb: False
        then have "int k \<noteq> b" using b by auto
        with False k nb show ?thesis by simp
      qed
    qed
  qed
  finally show ?case .
qed

lemma refine_okD:
  assumes "refine_ok t ls boxes" "1 \<le> lev" "lev < nat (nlevels t)"
  shows "distinct (level_boxes ls boxes lev)"
    and "\<And>b. b \<in> set (level_boxes ls boxes lev) \<Longrightarrow> in_level t lev b"
    and "\<And>b. b \<in> set (level_boxes ls boxes lev) \<Longrightarrow>
           in_level t (lev - 1) (box_parent_ids t ! nat b)"
    and "\<And>b. b \<in> set (level_boxes ls boxes lev) \<Longrightarrow> 2 \<le> lev \<Longrightarrow>
           box_parent_ids t ! nat b \<in> set (level_boxes ls boxes (lev - 1))"
  using assms unfolding refine_ok_def by blast+

lemma c1_refine_level_run:
  assumes ok: "refine_ok t ls boxes" and len: "length L = nat (nboxes t)"
    and lev: "1 \<le> lev" "lev < nat (nlevels t)"
  shows "c1_refine_level t ls boxes (int lev) L =
           Inr (map (\<lambda>k. if int k \<in> set (level_boxes ls boxes lev)
                          then L ! k + L ! nat (box_parent_ids t ! k) else L ! k)
                  [0..<length L])"
proof -
  let ?xs = "level_boxes ls boxes lev"
  have tl: "tree_levels_ok t" and pl: "nat (nboxes t) \<le> length (box_parent_ids t)"
    and ll: "nat (nlevels t) < length ls"
    using ok by (simp_all add: refine_ok_def)
  have "unpack2 (py_slice ls (int lev) (int lev + 2)) = Inr (ls ! lev, ls ! Suc lev)"
    using unpack2_slice [of "int lev" ls] lev ll by simp
  then have run: "c1_refine_level t ls boxes (int lev) L = foldE (c1_refine_box t) ?xs L"
    by (simp add: c1_refine_level_def level_boxes_def)
  have pre: "\<forall>b \<in> set ?xs. 0 \<le> b \<and> b < int (length L) \<and> nat b < length (box_parent_ids t) \<and>
           0 \<le> box_parent_ids t ! nat b \<and> box_parent_ids t ! nat b < int (length L) \<and>
           box_parent_ids t ! nat b \<notin> set ?xs"
  proof
    fix b assume b: "b \<in> set ?xs"
    have ib: "in_level t lev b" using refine_okD(2) [OF ok lev b] .
    have ip: "in_level t (lev - 1) (box_parent_ids t ! nat b)" using refine_okD(3) [OF ok lev b] .
    have b0: "0 \<le> b" and b1: "b < nboxes t" using in_level_bounds [OF tl lev(2) ib] by auto
    have lev1: "lev - 1 < nat (nlevels t)" using lev by simp
    have p0: "0 \<le> box_parent_ids t ! nat b" and p1: "box_parent_ids t ! nat b < nboxes t"
      using in_level_bounds [OF tl lev1 ip] by auto
    have "box_parent_ids t ! nat b \<notin> set ?xs"
    proof
      assume "box_parent_ids t ! nat b \<in> set ?xs"
      then have "in_level t lev (box_parent_ids t ! nat b)" using refine_okD(2) [OF ok lev] by blast
      from in_level_unique [OF tl lev(2) lev1 this ip] lev show False by simp
    qed
    then show "0 \<le> b \<and> b < int (length L) \<and> nat b < length (box_parent_ids t) \<and>
           0 \<le> box_parent_ids t ! nat b \<and> box_parent_ids t ! nat b < int (length L) \<and>
           box_parent_ids t ! nat b \<notin> set ?xs"
      using b0 b1 p0 p1 len pl by auto
  qed
  show ?thesis
    unfolding run by (rule c1_refine_boxes [OF refine_okD(1) [OF ok lev] pre])
qed

lemma c1_refine_levels_prefix:
  assumes ok: "refine_ok t ls boxes" and len: "length L0 = nat (nboxes t)"
    and k: "k < nat (nlevels t)"
  shows "\<exists>L. foldE (c1_refine_level t ls boxes) (map int [1..<Suc k]) L0 = Inr L \<and>
           length L = length L0 \<and>
           (\<forall>lev b. 1 \<le> lev \<and> lev \<le> k \<and> b \<in> set (level_boxes ls boxes lev) \<longrightarrow>
                L ! nat b = ancestor_sum t L0 b lev) \<and>
           (\<forall>j < length L0. (\<forall>lev. 1 \<le> lev \<and> lev \<le> k \<longrightarrow> int j \<notin> set (level_boxes ls boxes lev))
                \<longrightarrow> L ! j = L0 ! j)"
  using k
proof (induction k)
  case 0
  show ?case by simp
next
  case (Suc k)
  have tl: "tree_levels_ok t" using ok by (simp add: refine_ok_def)
  from Suc obtain L where
    run: "foldE (c1_refine_level t ls boxes) (map int [1..<Suc k]) L0 = Inr L" and
    lenL: "length L = length L0" and
    listed: "\<And>lev b. 1 \<le> lev \<Longrightarrow> lev \<le> k \<Longrightarrow> b \<in> set (level_boxes ls boxes lev) \<Longrightarrow>
                L ! nat b = ancestor_sum t L0 b lev" and
    others: "\<And>j. j < length L0 \<Longrightarrow>
        (\<forall>lev. 1 \<le> lev \<and> lev \<le> k \<longrightarrow> int j \<notin> set (level_boxes ls boxes lev)) \<Longrightarrow> L ! j = L0 ! j"
    by (auto simp: Suc_lessD)
  let ?xs = "level_boxes ls boxes (Suc k)"
  let ?L' = "map (\<lambda>j. if int j \<in> set ?xs then L ! j + L ! nat (box_parent_ids t ! j) else L ! j)
               [0..<length L]"
  have lev: "1 \<le> Suc k" "Suc k < nat (nlevels t)" using Suc.prems by auto
  have step: "c1_refine_level t ls boxes (int (Suc k)) L = Inr ?L'"
    using c1_refine_level_run [OF ok _ lev, of L] lenL len by simp
  have run': "foldE (c1_refine_level t ls boxes) (map int [1..<Suc (Suc k)]) L0 = Inr ?L'"
    using run step by (simp add: foldE_snoc del: of_nat_Suc)
  have unlisted_below: "\<not> (1 \<le> lev \<and> lev \<le> k \<and> b \<in> set (level_boxes ls boxes lev))"
    if "in_level t l b" "k < l" "l < nat (nlevels t)" for l lev b
  proof
    assume a: "1 \<le> lev \<and> lev \<le> k \<and> b \<in> set (level_boxes ls boxes lev)"
    then have lv: "1 \<le> lev" "lev < nat (nlevels t)" using that by auto
    have "in_level t lev b" using refine_okD(2) [OF ok lv] a by blast
    from in_level_unique [OF tl lv(2) that(3) this that(1)] a that(2) show False by simp
  qed
  have new: "?L' ! nat b = ancestor_sum t L0 b (Suc k)" if b: "b \<in> set ?xs" for b
  proof -
    let ?p = "box_parent_ids t ! nat b"
    have ib: "in_level t (Suc k) b" using refine_okD(2) [OF ok lev b] .
    have ip: "in_level t k ?p" using refine_okD(3) [OF ok lev b] by simp
    have b0: "0 \<le> b" "b < nboxes t" using in_level_bounds [OF tl lev(2) ib] by auto
    have klt: "k < nat (nlevels t)" using lev by simp
    have p0: "0 \<le> ?p" "?p < nboxes t" using in_level_bounds [OF tl klt ip] by auto
    have bn: "nat b < length L0" "nat ?p < length L0" using b0 p0 len by auto
    have "L ! nat b = L0 ! nat b"
    proof (rule others [OF bn(1)])
      show "\<forall>lev. 1 \<le> lev \<and> lev \<le> k \<longrightarrow> int (nat b) \<notin> set (level_boxes ls boxes lev)"
        using unlisted_below [OF ib _ lev(2)] b0 by auto
    qed
    moreover have "L ! nat ?p = ancestor_sum t L0 ?p k"
    proof (cases "k = 0")
      case True
      have "L ! nat ?p = L0 ! nat ?p"
        by (rule others [OF bn(2)]) (use True in simp)
      then show ?thesis using True by simp
    next
      case False
      then have "2 \<le> Suc k" by simp
      from refine_okD(4) [OF ok lev b this] have "?p \<in> set (level_boxes ls boxes k)" by simp
      then show ?thesis using listed [of k ?p] False by simp
    qed
    ultimately show ?thesis using b bn lenL b0 by simp
  qed
  have old: "?L' ! nat b = ancestor_sum t L0 b lev"
    if "1 \<le> lev" "lev \<le> k" "b \<in> set (level_boxes ls boxes lev)" for lev b
  proof -
    have lv: "1 \<le> lev" "lev < nat (nlevels t)" using that lev by auto
    have ib: "in_level t lev b" using refine_okD(2) [OF ok lv that(3)] .
    have b0: "0 \<le> b" "b < nboxes t" using in_level_bounds [OF tl lv(2) ib] by auto
    have "b \<notin> set ?xs"
    proof
      assume "b \<in> set ?xs"
      then have "in_level t (Suc k) b" using refine_okD(2) [OF ok lev] by blast
      from in_level_unique [OF tl lv(2) lev(2) ib this] that(2) show False by simp
    qed
    then show ?thesis using listed [OF that] b0 len lenL by simp
  qed
  have rest: "?L' ! j = L0 ! j"
    if "j < length L0" "\<forall>lev. 1 \<le> lev \<and> lev \<le> Suc k \<longrightarrow> int j \<notin> set (level_boxes ls boxes lev)" for j
  proof -
    have "int j \<notin> set ?xs" using that(2) by auto
    moreover have "L ! j = L0 ! j" using others [OF that(1)] that(2) by auto
    ultimately show ?thesis using that(1) lenL by simp
  qed
  have all: "\<forall>lev b. 1 \<le> lev \<and> lev \<le> Suc k \<and> b \<in> set (level_boxes ls boxes lev) \<longrightarrow>
                ?L' ! nat b = ancestor_sum t L0 b lev"
  proof (intro allI impI)
    fix lev b
    assume a: "1 \<le> lev \<and> lev \<le> Suc k \<and> b \<in> set (level_boxes ls boxes lev)"
    show "?L' ! nat b = ancestor_sum t L0 b lev"
    proof (cases "lev = Suc k")
      case True
      with a new show ?thesis by blast
    next
      case False
      with a have "lev \<le> k" by simp
      with a old show ?thesis by blast
    qed
  qed
  have rest': "\<forall>j < length L0.
      (\<forall>lev. 1 \<le> lev \<and> lev \<le> Suc k \<longrightarrow> int j \<notin> set (level_boxes ls boxes lev))
                \<longrightarrow> ?L' ! j = L0 ! j"
    using rest by blast
  have lenL': "length ?L' = length L0" by (simp add: lenL)
  show ?case
    by (rule exI [of _ ?L']) (intro conjI run' lenL' all rest')
qed

text \<open>
  Claim C3. The reference \<open>refine_locals\<close> runs through the levels 1, 2, ... up to the
  deepest, in this order, and at each level adds to every listed box the current value
  of its parent. When every level lists boxes of that level, each once, with parents
  on the level above that are themselves listed (from level 2 on), the call returns,
  and the final value of a box listed at level \<open>lev\<close> is the sum of the initial values
  of the box and its \<open>lev\<close> ancestors; boxes that are not listed keep their value.
\<close>

theorem c1_refine_locals_ancestor_sums:
  assumes ok: "refine_ok t level_starts boxes"
    and len: "length local_exps = nat (nboxes t)"
  shows "\<exists>refined.
           c1_refine_locals t level_starts boxes local_exps = Inr refined \<and>
           foldE (c1_refine_level t level_starts boxes) (map int [1..<nat (nlevels t)]) local_exps
             = Inr refined \<and>
           length refined = length local_exps \<and>
           (\<forall>lev L. 1 \<le> lev \<and> lev < nat (nlevels t) \<and> length L = nat (nboxes t) \<longrightarrow>
              c1_refine_level t level_starts boxes (int lev) L =
                Inr (map (\<lambda>k. if int k \<in> set (level_boxes level_starts boxes lev)
                               then L ! k + L ! nat (box_parent_ids t ! k) else L ! k)
                       [0..<length L])) \<and>
           (\<forall>lev b. 1 \<le> lev \<and> lev < nat (nlevels t) \<and> b \<in> set (level_boxes level_starts boxes lev)
              \<longrightarrow> refined ! nat b = ancestor_sum t local_exps b lev) \<and>
           (\<forall>j < length local_exps.
              (\<forall>lev. 1 \<le> lev \<and> lev < nat (nlevels t) \<longrightarrow>
                 int j \<notin> set (level_boxes level_starts boxes lev))
              \<longrightarrow> refined ! j = local_exps ! j)"
proof -
  have steps: "\<forall>lev L. 1 \<le> lev \<and> lev < nat (nlevels t) \<and> length L = nat (nboxes t) \<longrightarrow>
              c1_refine_level t level_starts boxes (int lev) L =
                Inr (map (\<lambda>k. if int k \<in> set (level_boxes level_starts boxes lev)
                               then L ! k + L ! nat (box_parent_ids t ! k) else L ! k)
                       [0..<length L])"
    using c1_refine_level_run [OF ok] by blast
  have def: "c1_refine_locals t level_starts boxes local_exps
      = foldE (c1_refine_level t level_starts boxes) (map int [1..<nat (nlevels t)]) local_exps"
    by (simp add: c1_refine_locals_def py_range2_upt)
  show ?thesis
  proof (cases "nat (nlevels t)")
    case 0
    then have "foldE (c1_refine_level t level_starts boxes) (map int [1..<nat (nlevels t)]) local_exps
        = Inr local_exps" by simp
    then show ?thesis
      unfolding def using 0 by (intro exI [of _ local_exps]) simp
  next
    case (Suc k)
    then have k: "k < nat (nlevels t)" by simp
    from c1_refine_levels_prefix [OF ok len k] obtain L where
      L: "foldE (c1_refine_level t level_starts boxes) (map int [1..<Suc k]) local_exps = Inr L"
         "length L = length local_exps"
         "\<forall>lev b. 1 \<le> lev \<and> lev \<le> k \<and> b \<in> set (level_boxes level_starts boxes lev) \<longrightarrow>
                L ! nat b = ancestor_sum t local_exps b lev"
         "\<forall>j < length local_exps.
            (\<forall>lev. 1 \<le> lev \<and> lev \<le> k \<longrightarrow> int j \<notin> set (level_boxes level_starts boxes lev))
                \<longrightarrow> L ! j = local_exps ! j"
      by blast
    have le: "lev \<le> k \<longleftrightarrow> lev < nat (nlevels t)" for lev using Suc by auto
    show ?thesis
      unfolding def
      by (rule exI [of _ L]) (use L steps in \<open>simp add: Suc [symmetric] le\<close>)
  qed
qed

lemma levels_1_to_3: "(\<forall>lev. 1 \<le> lev \<and> lev < (4::nat) \<longrightarrow> P lev) \<longleftrightarrow> P 1 \<and> P 2 \<and> P 3"
proof -
  have "1 \<le> lev \<and> lev < 4 \<longleftrightarrow> lev = 1 \<or> lev = 2 \<or> lev = 3" for lev :: nat by arith
  then show ?thesis by auto
qed

lemma example_level_boxes:
  "level_boxes [0, 1, 3, 7, 11] [0, 1, 2, 3, 4, 5, 6, 7, 8, 9, 10] 1 = [1, 2]"
  "level_boxes [0, 1, 3, 7, 11] [0, 1, 2, 3, 4, 5, 6, 7, 8, 9, 10] (Suc 0) = [1, 2]"
  "level_boxes [0, 1, 3, 7, 11] [0, 1, 2, 3, 4, 5, 6, 7, 8, 9, 10] 2 = [3, 4, 5, 6]"
  "level_boxes [0, 1, 3, 7, 11] [0, 1, 2, 3, 4, 5, 6, 7, 8, 9, 10] 3 = [7, 8, 9, 10]"
  by (simp_all add: level_boxes_def py_slice_def clamp_index_def eval_nat_numeral)

lemma example_refine_ok:
  "refine_ok example_tree [0, 1, 3, 7, 11] [0, 1, 2, 3, 4, 5, 6, 7, 8, 9, 10]"
proof -
  have n: "nat (nlevels example_tree) = 4" by (simp add: example_tree_def)
  have tl: "tree_levels_ok example_tree"
    unfolding tree_levels_ok_def all_less_list_all n
    by (simp add: example_tree_def upt_0_4)
  have lv: "\<forall>lev. 1 \<le> lev \<and> lev < (4::nat) \<longrightarrow>
         distinct (level_boxes [0, 1, 3, 7, 11] [0, 1, 2, 3, 4, 5, 6, 7, 8, 9, 10] lev) \<and>
         (\<forall>b \<in> set (level_boxes [0, 1, 3, 7, 11] [0, 1, 2, 3, 4, 5, 6, 7, 8, 9, 10] lev).
            in_level example_tree lev b \<and>
            in_level example_tree (lev - 1) (box_parent_ids example_tree ! nat b) \<and>
            (2 \<le> lev \<longrightarrow>
               box_parent_ids example_tree ! nat b
                 \<in> set (level_boxes [0, 1, 3, 7, 11] [0, 1, 2, 3, 4, 5, 6, 7, 8, 9, 10] (lev - 1))))"
    unfolding levels_1_to_3
    by (simp add: example_level_boxes in_level_def example_tree_def)
  show ?thesis
    unfolding refine_ok_def n using tl lv by (simp add: example_tree_def)
qed

theorem c1_refine_locals_ancestor_sums_witness:
  "refine_ok example_tree [0, 1, 3, 7, 11] [0, 1, 2, 3, 4, 5, 6, 7, 8, 9, 10] \<and>
   length [1, 2, 3, 4, 5, 6, 7, 8, 9, 10, 11 :: real] = nat (nboxes example_tree) \<and>
   (\<exists>refined.
      c1_refine_locals example_tree [0, 1, 3, 7, 11] [0, 1, 2, 3, 4, 5, 6, 7, 8, 9, 10]
        [1, 2, 3, 4, 5, 6, 7, 8, 9, 10, 11] = Inr refined \<and>
      refined ! 7 = ancestor_sum example_tree [1, 2, 3, 4, 5, 6, 7, 8, 9, 10, 11] 7 3 \<and>
      refined ! 0 = 1) \<and>
   ancestor_sum example_tree [1, 2, 3, 4, 5, 6, 7, 8, 9, 10, 11] 7 3 = 8 + 4 + 2 + 1"
proof -
  let ?ls = "[0, 1, 3, 7, 11 :: int]" and ?bs = "[0, 1, 2, 3, 4, 5, 6, 7, 8, 9, 10 :: int]"
  let ?L = "[1, 2, 3, 4, 5, 6, 7, 8, 9, 10, 11 :: real]"
  have len: "length ?L = nat (nboxes example_tree)" by (simp add: example_tree_def)
  have n: "nat (nlevels example_tree) = 4" by (simp add: example_tree_def)
  from c1_refine_locals_ancestor_sums [OF example_refine_ok len] obtain refined where
    r: "c1_refine_locals example_tree ?ls ?bs ?L = Inr refined"
       "\<forall>lev b. 1 \<le> lev \<and> lev < nat (nlevels example_tree) \<and> b \<in> set (level_boxes ?ls ?bs lev)
              \<longrightarrow> refined ! nat b = ancestor_sum example_tree ?L b lev"
       "\<forall>j < length ?L. (\<forall>lev. 1 \<le> lev \<and> lev < nat (nlevels example_tree) \<longrightarrow>
                 int j \<notin> set (level_boxes ?ls ?bs lev)) \<longrightarrow> refined ! j = ?L ! j"
    by blast
  have "refined ! nat 7 = ancestor_sum example_tree ?L 7 3"
    using r(2) [rule_format, of 3 7] by (simp add: n example_level_boxes)
  then have a: "refined ! 7 = ancestor_sum example_tree ?L 7 3" by simp
  have u: "\<forall>lev. 1 \<le> lev \<and> lev < nat (nlevels example_tree) \<longrightarrow>
      int 0 \<notin> set (level_boxes ?ls ?bs lev)"
    unfolding n levels_1_to_3 by (simp add: example_level_boxes)
  have "0 < length ?L" by simp
  with r(3) u have "refined ! 0 = ?L ! 0" by blast
  then have b: "refined ! 0 = 1" by simp
  have c: "ancestor_sum example_tree ?L 7 3 = 8 + 4 + 2 + 1"
    by (simp add: eval_nat_numeral example_tree_def)
  show ?thesis
    using example_refine_ok len r(1) a b c by blast
qed

section \<open>Loops and views\<close>

lemma foldE_invariant:
  assumes "foldE f xs s = Inr s'" and "I s"
    and "\<And>x a b. x \<in> set xs \<Longrightarrow> I a \<Longrightarrow> f x a = Inr b \<Longrightarrow> I b"
  shows "I s'"
  using assms
proof (induction xs arbitrary: s)
  case Nil
  then show ?case by simp
next
  case (Cons x xs)
  from Cons.prems(1) obtain a where a: "f x s = Inr a" "foldE f xs a = Inr s'"
    by (auto split: sum.splits)
  have Ia: "I a" using Cons.prems(3) [of x s a] Cons.prems(2) a(1) by simp
  show ?case
    by (rule Cons.IH [OF a(2) Ia]) (use Cons.prems(3) in auto)
qed

lemma clamp_index_le: "clamp_index n i \<le> n"
  by (simp add: clamp_index_def Let_def)

lemma reshape_view_bounds:
  assumes "reshape_view buf a b nrows shape = Inr v"
  shows "v_start v = clamp_index (length buf) a"
    and "v_start v + v_nrows v * v_rowlen v \<le> length buf"
proof -
  let ?lo = "clamp_index (length buf) a" and ?hi = "clamp_index (length buf) b"
  from assms have n: "0 \<le> nrows" and p: "nrows * product shape = int (?hi - ?lo)"
    and v: "v = \<lparr> v_start = ?lo, v_nrows = nat nrows, v_rowlen = nat (product shape) \<rparr>"
    by (auto simp: reshape_view_def Let_def split: if_splits)
  show "v_start v = ?lo" by (simp add: v)
  have "int (nat nrows * nat (product shape)) = int (?hi - ?lo)"
  proof (cases "nrows = 0")
    case True
    with p show ?thesis by simp
  next
    case False
    with n have "0 < nrows" by simp
    with p have "0 \<le> product shape"
      by (metis of_nat_0_le_iff zero_le_mult_iff not_less order_less_imp_le)
    with n p show ?thesis by (simp add: nat_mult_distrib)
  qed
  then have "nat nrows * nat (product shape) = ?hi - ?lo" by linarith
  moreover have "?hi \<le> length buf" by (rule clamp_index_le)
  ultimately show "v_start v + v_nrows v * v_rowlen v \<le> length buf"
    by (cases "?lo \<le> ?hi") (auto simp: v clamp_index_le)
qed

lemma view_row_less: "view_row v r = Inr k \<Longrightarrow> k < v_nrows v"
  by (auto simp: view_row_def split: if_splits)

lemma write_row_frame:
  assumes "k < v_nrows v" "v_start v + v_nrows v * v_rowlen v \<le> length buf"
    "length vals = v_rowlen v"
  shows "length (write_row buf v k vals) = length buf"
    and "\<And>i. i < v_start v + k * v_rowlen v \<Longrightarrow> write_row buf v k vals ! i = buf ! i"
    and "\<And>i. v_start v + Suc k * v_rowlen v \<le> i \<Longrightarrow> i < length buf \<Longrightarrow>
           write_row buf v k vals ! i = buf ! i"
    and "\<And>j. j < v_rowlen v \<Longrightarrow>
           write_row buf v k vals ! (v_start v + k * v_rowlen v + j) = vals ! j"
proof -
  have "Suc k * v_rowlen v \<le> v_nrows v * v_rowlen v"
    using assms(1) by (intro mult_le_mono1) simp
  then have le: "v_start v + Suc k * v_rowlen v \<le> length buf" using assms(2) by linarith
  then have le0: "v_start v + k * v_rowlen v \<le> length buf" by simp
  show "length (write_row buf v k vals) = length buf"
    using le le0 assms(3) by (simp add: write_row_def)
  show "write_row buf v k vals ! i = buf ! i" if "i < v_start v + k * v_rowlen v" for i
    using that le0 by (simp add: write_row_def nth_append)
  show "write_row buf v k vals ! i = buf ! i"
    if "v_start v + Suc k * v_rowlen v \<le> i" "i < length buf" for i
  proof -
    let ?q = "v_start v + Suc k * v_rowlen v"
    have w: "write_row buf v k vals = (take (v_start v + k * v_rowlen v) buf @ vals) @ drop ?q buf"
      by (simp add: write_row_def)
    have len: "length (take (v_start v + k * v_rowlen v) buf @ vals) = ?q"
      using le0 assms(3) by simp
    have "write_row buf v k vals ! i = drop ?q buf ! (i - ?q)"
      unfolding w using that(1) len by (simp add: nth_append del: append_assoc)
    also have "\<dots> = buf ! i" using that le by simp
    finally show ?thesis .
  qed
  show "write_row buf v k vals ! (v_start v + k * v_rowlen v + j) = vals ! j"
    if "j < v_rowlen v" for j
    using that le0 assms(3) by (simp add: write_row_def nth_append)
qed

lemma np_add_length: "np_add xs ys = Inr zs \<Longrightarrow> length zs = length xs"
  by (auto simp: np_add_def split: if_splits)

lemma read_row_length:
  assumes "k < v_nrows v" "v_start v + v_nrows v * v_rowlen v \<le> length buf"
  shows "length (read_row buf v k) = v_rowlen v"
proof -
  have "Suc k * v_rowlen v \<le> v_nrows v * v_rowlen v"
    using assms(1) by (intro mult_le_mono1) simp
  then have "v_start v + k * v_rowlen v + v_rowlen v \<le> length buf" using assms(2) by simp
  then show ?thesis by (simp add: read_row_def)
qed

text \<open>A write through a view leaves everything below the start of the view as it was.\<close>

lemma view_add_frame:
  assumes "view_add buf v r vals = Inr buf'"
    and "v_start v + v_nrows v * v_rowlen v \<le> length buf"
  shows "length buf' = length buf" and "\<And>i. i < v_start v \<Longrightarrow> buf' ! i = buf ! i"
proof -
  from assms(1) obtain k new where k: "view_row v r = Inr k"
    and new: "np_add (read_row buf v k) vals = Inr new" and b: "buf' = write_row buf v k new"
    by (auto simp: view_add_def bindE_eq_Inr)
  have kn: "k < v_nrows v" using view_row_less [OF k] .
  have ln: "length new = v_rowlen v"
    using np_add_length [OF new] read_row_length [OF kn assms(2)] by simp
  show "length buf' = length buf" using write_row_frame(1) [OF kn assms(2) ln] b by simp
  show "buf' ! i = buf ! i" if "i < v_start v" for i
    using write_row_frame(2) [OF kn assms(2) ln, of i] that b by simp
qed

lemma view_set_frame:
  assumes "view_set buf v r vals = Inr buf'"
    and "v_start v + v_nrows v * v_rowlen v \<le> length buf"
  shows "length buf' = length buf" and "\<And>i. i < v_start v \<Longrightarrow> buf' ! i = buf ! i"
proof -
  from assms(1) obtain k where k: "view_row v r = Inr k"
    and ln: "length vals = v_rowlen v" and b: "buf' = write_row buf v k vals"
    by (auto simp: view_set_def bindE_eq_Inr split: if_splits)
  have kn: "k < v_nrows v" using view_row_less [OF k] .
  show "length buf' = length buf" using write_row_frame(1) [OF kn assms(2) ln] b by simp
  show "buf' ! i = buf ! i" if "i < v_start v" for i
    using write_row_frame(2) [OF kn assms(2) ln, of i] that b by simp
qed

section \<open>The upward pass leaves the two coarsest levels alone\<close>

lemma bindE_InrE:
  assumes "bindE m f = Inr y"
  obtains x where "m = Inr x" and "f x = Inr y"
  using assms by (cases m) auto

lemma unpack2_slice_Inr:
  assumes "0 \<le> i" "unpack2 (py_slice xs i (i + 2)) = Inr (a, b)"
  shows "Suc (nat i) < length xs" and "a = xs ! nat i" and "b = xs ! Suc (nat i)"
proof -
  have n: "nat (i + 2) = nat i + 2" using assms(1) by (simp add: nat_add_distrib)
  let ?s = "py_slice xs i (i + 2)"
  have s: "?s = take (min (length xs) (nat i + 2) - min (length xs) (nat i))
                   (drop (min (length xs) (nat i)) xs)"
    using assms(1) by (simp add: py_slice_nonneg n)
  from assms(2) have l2: "length ?s = 2" and ab: "?s = [a, b]"
    by (auto simp: unpack2_def split: list.splits)
  show lt: "Suc (nat i) < length xs"
  proof (rule ccontr)
    assume "\<not> Suc (nat i) < length xs"
    then have "min (length xs) (nat i + 2) - min (length xs) (nat i) \<le> 1" by arith
    then have "length ?s \<le> 1" unfolding s by simp
    with l2 show False by simp
  qed
  from unpack2_slice [OF assms(1) lt] assms(2) show "a = xs ! nat i" "b = xs ! Suc (nat i)"
    by simp_all
qed

lemma py_range_down_set: "sl \<in> set (py_range_down a b) \<Longrightarrow> b < sl \<and> sl \<le> a"
  by (auto simp: py_range_down_def)

lemma expansions_view_bounds:
  assumes "expansions_view w buf level = Inr (bs, v)" "0 \<le> level"
  shows "\<exists>level_starts. multipole_expansions_level_starts w = Inr level_starts \<and>
           Suc (nat level) < length level_starts \<and>
           v_start v = clamp_index (length buf) (level_starts ! nat level)"
    and "v_start v + v_nrows v * v_rowlen v \<le> length buf"
proof -
  from assms(1) obtain box_start box_stop level_starts a b order shape where
    ls: "multipole_expansions_level_starts w = Inr level_starts" and
    u: "unpack2 (py_slice level_starts level (level + 2)) = Inr (a, b)" and
    r: "reshape_view buf a b (box_stop - box_start) shape = Inr v"
    by (auto simp: expansions_view_def elim!: bindE_InrE split: prod.splits)
  from unpack2_slice_Inr [OF assms(2) u] have "Suc (nat level) < length level_starts"
    "a = level_starts ! nat level" by auto
  with ls reshape_view_bounds(1) [OF r]
  show "\<exists>level_starts. multipole_expansions_level_starts w = Inr level_starts \<and>
           Suc (nat level) < length level_starts \<and>
           v_start v = clamp_index (length buf) (level_starts ! nat level)" by auto
  show "v_start v + v_nrows v * v_rowlen v \<le> length buf"
    using reshape_view_bounds(2) [OF r] .
qed

text \<open>The invariant of the loops of \<open>coarsen_multipoles\<close>.\<close>

lemma coarsen_child_inv:
  assumes run: "coarsen_child k w sl sv (bs, v) ibox pc child st = Inr st'"
    and len: "length (fst st) = n" and vb: "v_start v + v_nrows v * v_rowlen v \<le> n"
    and sl: "3 \<le> sl" "sl < nlevels (w_tree w)"
    and ch: "column (box_child_ids (w_tree w)) ibox = Inr children" "child \<in> set children"
    and calls: "\<forall>c \<in> set (snd st). coarsen_call_ok w c"
  shows "length (fst st') = n" and "\<And>i. i < v_start v \<Longrightarrow> fst st' ! i = fst st ! i"
    and "\<forall>c \<in> set (snd st'). coarsen_call_ok w c"
proof -
  show "length (fst st') = n"
  proof (cases "child = 0")
    case True
    with run len show ?thesis by (simp add: coarsen_child_def)
  next
    case False
    with run obtain new_mp where
      "view_add (fst st) v (ibox - bs) new_mp = Inr (fst st')"
      by (auto simp: coarsen_child_def bindE_eq_Inr)
    from view_add_frame(1) [OF this] vb len show ?thesis by simp
  qed
  show "fst st' ! i = fst st ! i" if "i < v_start v" for i
  proof (cases "child = 0")
    case True
    with run show ?thesis by (simp add: coarsen_child_def)
  next
    case False
    with run obtain new_mp where
      "view_add (fst st) v (ibox - bs) new_mp = Inr (fst st')"
      by (auto simp: coarsen_child_def bindE_eq_Inr)
    from view_add_frame(2) [OF this _ that] vb len show ?thesis by simp
  qed
  show "\<forall>c \<in> set (snd st'). coarsen_call_ok w c"
  proof (cases "child = 0")
    case True
    with run calls show ?thesis by (simp add: coarsen_child_def)
  next
    case False
    with run have "snd st' = snd st @ [Call_mpmp sl ibox child]"
      by (auto simp: coarsen_child_def bindE_eq_Inr)
    moreover have "coarsen_call_ok w (Call_mpmp sl ibox child)"
      using sl ch False by (simp add: coarsen_call_ok_def)
    ultimately show ?thesis using calls by simp
  qed
qed

lemma level_starts_sorted:
  assumes ok: "level_data_ok w ots" and run: "expansions_level_starts w ots = Inr level_starts"
  shows "length level_starts = Suc (nat (nlevels (w_tree w)))"
    and "\<And>j k. j \<le> k \<Longrightarrow> k \<le> nat (nlevels (w_tree w)) \<Longrightarrow> level_starts ! j \<le> level_starts ! k"
    and "\<And>j. j \<le> nat (nlevels (w_tree w)) \<Longrightarrow> 0 \<le> level_starts ! j"
proof -
  from level_starts_value [OF ok] run have
    len: "length level_starts = Suc (nat (nlevels (w_tree w)))" and
    val: "\<forall>k \<le> nat (nlevels (w_tree w)). level_starts ! k = (\<Sum>lev<k. region_size w ots lev)"
    by auto
  have nonneg: "\<forall>l<nat (nlevels (w_tree w)). 0 \<le> region_size w ots l"
    using region_size_nonneg [OF ok] by simp
  show "length level_starts = Suc (nat (nlevels (w_tree w)))" by (rule len)
  show mono: "level_starts ! j \<le> level_starts ! k"
    if "j \<le> k" "k \<le> nat (nlevels (w_tree w))" for j k
    using val prefix_sum_mono [OF nonneg that] that by simp
  show "0 \<le> level_starts ! j" if "j \<le> nat (nlevels (w_tree w))" for j
    using mono [of 0 j] that val by simp
qed

lemma coarsen_box_inv:
  assumes run: "coarsen_box k w sl sv (bs, v) ibox st = Inr st'"
    and len: "length (fst st) = n" and vb: "v_start v + v_nrows v * v_rowlen v \<le> n"
    and sl: "3 \<le> sl" "sl < nlevels (w_tree w)"
    and m: "m \<le> v_start v"
    and frame: "\<forall>i < m. fst st ! i = B ! i"
    and calls: "\<forall>c \<in> set (snd st). coarsen_call_ok w c"
  shows "length (fst st') = n \<and> (\<forall>i < m. fst st' ! i = B ! i) \<and>
         (\<forall>c \<in> set (snd st'). coarsen_call_ok w c)"
proof -
  from run obtain pc children where
    ch: "column (box_child_ids (w_tree w)) ibox = Inr children" and
    f: "foldE (coarsen_child k w sl sv (bs, v) ibox pc) children st = Inr st'"
    by (auto simp: coarsen_box_def elim!: bindE_InrE)
  show ?thesis
  proof (rule foldE_invariant [OF f, where I = "\<lambda>a. length (fst a) = n \<and>
      (\<forall>i < m. fst a ! i = B ! i) \<and> (\<forall>c \<in> set (snd a). coarsen_call_ok w c)"])
    show "length (fst st) = n \<and> (\<forall>i < m. fst st ! i = B ! i) \<and>
        (\<forall>c \<in> set (snd st). coarsen_call_ok w c)"
      using len frame calls by simp
  next
    fix child a b
    assume c: "child \<in> set children"
      and a: "length (fst a) = n \<and> (\<forall>i < m. fst a ! i = B ! i) \<and>
          (\<forall>c \<in> set (snd a). coarsen_call_ok w c)"
      and r: "coarsen_child k w sl sv (bs, v) ibox pc child a = Inr b"
    from a have a1: "length (fst a) = n" and a3: "\<forall>c \<in> set (snd a). coarsen_call_ok w c"
      by auto
    note inv = coarsen_child_inv [OF r a1 vb sl ch c a3]
    have "\<forall>i < m. fst b ! i = B ! i"
      using inv(2) a m by (metis less_le_trans)
    with inv(1,3) show "length (fst b) = n \<and> (\<forall>i < m. fst b ! i = B ! i) \<and>
          (\<forall>c \<in> set (snd b). coarsen_call_ok w c)" by simp
  qed
qed

lemma coarsen_level_inv:
  assumes ok: "level_data_ok w (expansion_size w)"
    and ls: "multipole_expansions_level_starts w = Inr level_starts"
    and run: "coarsen_level k w lsp boxes sl st = Inr st'"
    and len: "length (fst st) = n"
    and sl: "3 \<le> sl" "sl < nlevels (w_tree w)"
    and m: "m = min n (nat (level_starts ! 2))"
    and frame: "\<forall>i < m. fst st ! i = B ! i"
    and calls: "\<forall>c \<in> set (snd st). coarsen_call_ok w c"
  shows "length (fst st') = n \<and> (\<forall>i < m. fst st' ! i = B ! i) \<and>
         (\<forall>c \<in> set (snd st'). coarsen_call_ok w c)"
proof -
  from run obtain sv bs v start stop where
    tv: "multipole_expansions_view w (fst st) (sl - 1) = Inr (bs, v)" and
    f: "foldE (coarsen_box k w sl sv (bs, v)) (py_slice boxes start stop) st = Inr st'"
    by (auto simp: coarsen_level_def Let_def elim!: bindE_InrE split: prod.splits)
  have tl0: "0 \<le> sl - 1" using sl by simp
  from tv have ev: "expansions_view w (fst st) (sl - 1) = Inr (bs, v)"
    by (simp add: multipole_expansions_view_def)
  from expansions_view_bounds(1) [OF ev tl0] ls
  have vs: "v_start v = clamp_index n (level_starts ! nat (sl - 1))" using len by auto
  have vb: "v_start v + v_nrows v * v_rowlen v \<le> n"
    using expansions_view_bounds(2) [OF ev tl0] len by simp
  have run': "expansions_level_starts w (expansion_size w) = Inr level_starts"
    using ls by (simp add: multipole_expansions_level_starts_def)
  have le: "level_starts ! 2 \<le> level_starts ! nat (sl - 1)"
    using level_starts_sorted(2) [OF ok run', of 2 "nat (sl - 1)"] sl by simp
  have nn: "0 \<le> level_starts ! nat (sl - 1)"
    using level_starts_sorted(3) [OF ok run', of "nat (sl - 1)"] sl by simp
  have "nat (level_starts ! 2) \<le> nat (level_starts ! nat (sl - 1))"
    using le by simp
  then have mv: "m \<le> v_start v"
    using nn by (simp add: vs m clamp_index_nonneg)
  show ?thesis
  proof (rule foldE_invariant [OF f, where I = "\<lambda>a. length (fst a) = n \<and>
      (\<forall>i < m. fst a ! i = B ! i) \<and> (\<forall>c \<in> set (snd a). coarsen_call_ok w c)"])
    show "length (fst st) = n \<and> (\<forall>i < m. fst st ! i = B ! i) \<and>
        (\<forall>c \<in> set (snd st). coarsen_call_ok w c)"
      using len frame calls by simp
  next
    fix ibox a b
    assume a: "length (fst a) = n \<and> (\<forall>i < m. fst a ! i = B ! i) \<and>
          (\<forall>c \<in> set (snd a). coarsen_call_ok w c)"
      and r: "coarsen_box k w sl sv (bs, v) ibox a = Inr b"
    from a have a1: "length (fst a) = n" and a2: "\<forall>i < m. fst a ! i = B ! i"
      and a3: "\<forall>c \<in> set (snd a). coarsen_call_ok w c" by auto
    show "length (fst b) = n \<and> (\<forall>i < m. fst b ! i = B ! i) \<and>
          (\<forall>c \<in> set (snd b). coarsen_call_ok w c)"
      by (rule coarsen_box_inv [OF r a1 vb sl mv a2 a3])
  qed
qed

lemma coarsen_multipoles_inv:
  assumes ok: "level_data_ok w (expansion_size w)"
    and ls: "multipole_expansions_level_starts w = Inr level_starts"
    and run: "coarsen_multipoles k w lsp boxes mpoles = Inr (mpoles', calls)"
  shows "length mpoles' = length mpoles"
    and "\<forall>i < min (length mpoles) (nat (level_starts ! 2)). mpoles' ! i = mpoles ! i"
    and "\<forall>c \<in> set calls. coarsen_call_ok w c"
proof -
  let ?m = "min (length mpoles) (nat (level_starts ! 2))"
  have "length (fst (mpoles', calls)) = length mpoles \<and>
      (\<forall>i < ?m. fst (mpoles', calls) ! i = mpoles ! i) \<and>
      (\<forall>c \<in> set (snd (mpoles', calls)). coarsen_call_ok w c)"
  proof (rule foldE_invariant [OF run [unfolded coarsen_multipoles_def],
        where I = "\<lambda>a. length (fst a) = length mpoles \<and>
      (\<forall>i < ?m. fst a ! i = mpoles ! i) \<and> (\<forall>c \<in> set (snd a). coarsen_call_ok w c)"])
    show "length (fst (mpoles, [])) = length mpoles \<and>
      (\<forall>i < ?m. fst (mpoles, []) ! i = mpoles ! i) \<and>
      (\<forall>c \<in> set (snd (mpoles, [])). coarsen_call_ok w c)" by simp
  next
    fix sl a b
    assume s: "sl \<in> set (py_range_down (nlevels (w_tree w) - 1) 2)"
      and a: "length (fst a) = length mpoles \<and> (\<forall>i < ?m. fst a ! i = mpoles ! i) \<and>
          (\<forall>c \<in> set (snd a). coarsen_call_ok w c)"
      and r: "coarsen_level k w lsp boxes sl a = Inr b"
    from py_range_down_set [OF s] have sl: "3 \<le> sl" "sl < nlevels (w_tree w)" by auto
    from a have a1: "length (fst a) = length mpoles" and a2: "\<forall>i < ?m. fst a ! i = mpoles ! i"
      and a3: "\<forall>c \<in> set (snd a). coarsen_call_ok w c" by auto
    show "length (fst b) = length mpoles \<and> (\<forall>i < ?m. fst b ! i = mpoles ! i) \<and>
          (\<forall>c \<in> set (snd b). coarsen_call_ok w c)"
      by (rule coarsen_level_inv [OF ok ls r a1 sl refl a2 a3])
  qed
  then show "length mpoles' = length mpoles"
    and "\<forall>i < ?m. mpoles' ! i = mpoles ! i"
    and "\<forall>c \<in> set calls. coarsen_call_ok w c" by simp_all
qed

lemma additem_nonneg_Inr:
  assumes "additem xs i v = Inr ys" "0 \<le> i"
  shows "i < int (length xs)" and "ys = xs[nat i := xs ! nat i + v]"
  using assms by (auto simp: additem_def getitem_def split: if_splits)

lemma c1_coarsen_child_frame:
  assumes "c1_coarsen_child ibox child a = Inr b" "0 \<le> ibox"
  shows "length b = length a" and "\<And>i. int i < ibox \<Longrightarrow> b ! i = a ! i"
proof -
  show "length b = length a"
    using assms(1) by (auto simp: c1_coarsen_child_def additem_length elim!: bindE_InrE split: if_splits)
  show "b ! i = a ! i" if "int i < ibox" for i
  proof (cases "child = 0")
    case True
    with assms(1) show ?thesis by (simp add: c1_coarsen_child_def)
  next
    case False
    with assms(1) obtain v where "additem a ibox v = Inr b"
      by (auto simp: c1_coarsen_child_def elim!: bindE_InrE)
    from additem_nonneg_Inr(2) [OF this assms(2)] that show ?thesis by simp
  qed
qed

lemma c1_coarsen_frame:
  assumes ok: "coarsen_listed_ok t ls boxes"
    and run: "c1_coarsen_multipoles t ls boxes mp = Inr mp'"
  shows "length mp' = length mp \<and>
         (\<forall>i < length mp. int i < level_start_box_nrs t ! 2 \<longrightarrow> mp' ! i = mp ! i)"
proof (rule foldE_invariant [OF run [unfolded c1_coarsen_multipoles_def],
      where I = "\<lambda>a. length a = length mp \<and>
         (\<forall>i < length mp. int i < level_start_box_nrs t ! 2 \<longrightarrow> a ! i = mp ! i)"])
  show "length mp = length mp \<and>
         (\<forall>i < length mp. int i < level_start_box_nrs t ! 2 \<longrightarrow> mp ! i = mp ! i)" by simp
next
  fix sl a b
  assume s: "sl \<in> set (py_range_down (nlevels t - 1) 2)"
    and a: "length a = length mp \<and>
         (\<forall>i < length mp. int i < level_start_box_nrs t ! 2 \<longrightarrow> a ! i = mp ! i)"
    and r: "c1_coarsen_level t ls boxes sl a = Inr b"
  from py_range_down_set [OF s] have sl: "3 \<le> sl" "sl < nlevels t" by auto
  have tl: "tree_levels_ok t" using ok by (simp add: coarsen_listed_ok_def)
  define lev where "lev = nat (sl - 1)"
  have lev: "2 \<le> lev" "lev < nat (nlevels t)" "int lev = sl - 1" using sl by (auto simp: lev_def)
  from r obtain start stop where
    u: "unpack2 (py_slice ls (sl - 1) (sl - 1 + 2)) = Inr (start, stop)" and
    f: "foldE (c1_coarsen_box t) (py_slice boxes start stop) a = Inr b"
    by (auto simp: c1_coarsen_level_def Let_def elim!: bindE_InrE split: prod.splits)
  have "0 \<le> sl - 1" using sl by simp
  from unpack2_slice_Inr [OF this u] have "start = ls ! lev" "stop = ls ! Suc lev"
    by (simp_all add: lev_def)
  then have xs: "py_slice boxes start stop = level_boxes ls boxes lev"
    by (simp add: level_boxes_def)
  have inl: "\<forall>ibox \<in> set (level_boxes ls boxes lev). in_level t lev ibox"
    using ok lev by (simp add: coarsen_listed_ok_def)
  have low: "level_start_box_nrs t ! 2 \<le> level_start_box_nrs t ! lev"
    using level_starts_mono [OF tl, of 2 lev] lev by simp
  have z: "0 \<le> level_start_box_nrs t ! 2"
    using level_starts_mono [OF tl, of 0 2] lev tl by (simp add: tree_levels_ok_def)
  show "length b = length mp \<and>
         (\<forall>i < length mp. int i < level_start_box_nrs t ! 2 \<longrightarrow> b ! i = mp ! i)"
  proof (rule foldE_invariant [OF f [unfolded xs], where I = "\<lambda>a. length a = length mp \<and>
         (\<forall>i < length mp. int i < level_start_box_nrs t ! 2 \<longrightarrow> a ! i = mp ! i)"])
    show "length a = length mp \<and>
         (\<forall>i < length mp. int i < level_start_box_nrs t ! 2 \<longrightarrow> a ! i = mp ! i)" by (rule a)
  next
    fix ibox c d
    assume ib: "ibox \<in> set (level_boxes ls boxes lev)"
      and c: "length c = length mp \<and>
         (\<forall>i < length mp. int i < level_start_box_nrs t ! 2 \<longrightarrow> c ! i = mp ! i)"
      and rb: "c1_coarsen_box t ibox c = Inr d"
    from inl ib have "in_level t lev ibox" by blast
    then have ge: "level_start_box_nrs t ! 2 \<le> ibox" using low by (simp add: in_level_def)
    then have ib0: "0 \<le> ibox" using z by simp
    from rb obtain children where
      fc: "foldE (c1_coarsen_child ibox) children c = Inr d"
      by (auto simp: c1_coarsen_box_def elim!: bindE_InrE)
    show "length d = length mp \<and>
         (\<forall>i < length mp. int i < level_start_box_nrs t ! 2 \<longrightarrow> d ! i = mp ! i)"
    proof (rule foldE_invariant [OF fc, where I = "\<lambda>a. length a = length mp \<and>
         (\<forall>i < length mp. int i < level_start_box_nrs t ! 2 \<longrightarrow> a ! i = mp ! i)"])
      show "length c = length mp \<and>
         (\<forall>i < length mp. int i < level_start_box_nrs t ! 2 \<longrightarrow> c ! i = mp ! i)" by (rule c)
    next
      fix child e g
      assume e: "length e = length mp \<and>
         (\<forall>i < length mp. int i < level_start_box_nrs t ! 2 \<longrightarrow> e ! i = mp ! i)"
        and rc: "c1_coarsen_child ibox child e = Inr g"
      note fr = c1_coarsen_child_frame [OF rc ib0]
      have "g ! i = mp ! i" if "i < length mp" "int i < level_start_box_nrs t ! 2" for i
      proof -
        have "int i < ibox" using that(2) ge by simp
        from fr(2) [OF this] e that show ?thesis by simp
      qed
      with fr(1) e show "length g = length mp \<and>
         (\<forall>i < length mp. int i < level_start_box_nrs t ! 2 \<longrightarrow> g ! i = mp ! i)" by simp
    qed
  qed
qed

text \<open>
  Claim C4. \<open>coarsen_multipoles\<close> runs through the source levels from the deepest down
  to level 3, so that an expansion is only ever added to at level 2 or deeper. On
  well-formed level data the wrangler's pass leaves the length of the buffer and all
  coefficients of the regions of levels 0 and 1 as they were, and every kernel call it
  makes translates the expansion of a present child of a box, taken at a level from 3
  on, for the box's row one level up. The reference wrangler, given lists whose boxes
  are boxes of the level they are listed for, leaves the values of all boxes of levels
  0 and 1 as they were.
\<close>

theorem coarsen_multipoles_frame:
  "(level_data_ok w (expansion_size w) \<and>
    multipole_expansions_level_starts w = Inr offsets \<and>
    coarsen_multipoles k w level_starts boxes mpoles = Inr (mpoles', calls) \<longrightarrow>
      py_range_down (nlevels (w_tree w) - 1) 2
        = map (\<lambda>j. nlevels (w_tree w) - 1 - int j) [0..<nat (nlevels (w_tree w) - 3)] \<and>
      length mpoles' = length mpoles \<and>
      (\<forall>i < length mpoles. int i < offsets ! 2 \<longrightarrow> mpoles' ! i = mpoles ! i) \<and>
      (\<forall>c \<in> set calls. coarsen_call_ok w c)) \<and>
   (coarsen_listed_ok t level_starts boxes \<and>
    c1_coarsen_multipoles t level_starts boxes mp = Inr mp' \<longrightarrow>
      length mp' = length mp \<and>
      (\<forall>i < length mp. int i < level_start_box_nrs t ! 2 \<longrightarrow> mp' ! i = mp ! i))"
proof (intro conjI impI)
  assume a: "level_data_ok w (expansion_size w) \<and>
    multipole_expansions_level_starts w = Inr offsets \<and>
    coarsen_multipoles k w level_starts boxes mpoles = Inr (mpoles', calls)"
  then have ok: "level_data_ok w (expansion_size w)"
    and ls: "multipole_expansions_level_starts w = Inr offsets"
    and run: "coarsen_multipoles k w level_starts boxes mpoles = Inr (mpoles', calls)"
    by auto
  note inv = coarsen_multipoles_inv [OF ok ls run]
  show "py_range_down (nlevels (w_tree w) - 1) 2
        = map (\<lambda>j. nlevels (w_tree w) - 1 - int j) [0..<nat (nlevels (w_tree w) - 3)]"
    by (simp add: py_range_down_def)
  show "length mpoles' = length mpoles" by (rule inv(1))
  show "\<forall>c \<in> set calls. coarsen_call_ok w c" by (rule inv(3))
  show "\<forall>i < length mpoles. int i < offsets ! 2 \<longrightarrow> mpoles' ! i = mpoles ! i"
  proof (intro allI impI)
    fix i assume "i < length mpoles" "int i < offsets ! 2"
    then have "i < min (length mpoles) (nat (offsets ! 2))" by simp
    with inv(2) show "mpoles' ! i = mpoles ! i" by blast
  qed
next
  assume "coarsen_listed_ok t level_starts boxes \<and>
    c1_coarsen_multipoles t level_starts boxes mp = Inr mp'"
  then have ok: "coarsen_listed_ok t level_starts boxes"
    and run: "c1_coarsen_multipoles t level_starts boxes mp = Inr mp'" by auto
  from c1_coarsen_frame [OF ok run]
  show "length mp' = length mp"
    and "\<forall>i < length mp. int i < level_start_box_nrs t ! 2 \<longrightarrow> mp' ! i = mp ! i" by auto
qed

lemma example_coarsen_run:
  "coarsen_multipoles example_kernels example_wrangler [0, 1, 3, 5, 5] [0, 1, 2, 3, 6]
     example_mpoles
   = Inr (replicate 9 1 @ replicate 4 5 @ replicate 8 1 @ replicate 4 5 @ replicate 16 2,
          [Call_mpmp 3 3 7, Call_mpmp 3 3 8, Call_mpmp 3 6 9, Call_mpmp 3 6 10])"
  by code_simp

lemma example_c1_coarsen_run:
  "c1_coarsen_multipoles example_tree [0, 1, 3, 5, 5] [0, 1, 2, 3, 6]
     [1, 2, 3, 4, 5, 6, 7, 8, 9, 10, 11]
   = Inr [1, 2, 3, 21, 5, 6, 28, 8, 9, 10, 11]"
  by code_simp

lemma levels_2_to_3: "(\<forall>lev. 2 \<le> lev \<and> lev < (4::nat) \<longrightarrow> P lev) \<longleftrightarrow> P 2 \<and> P 3"
proof -
  have "2 \<le> lev \<and> lev < 4 \<longleftrightarrow> lev = 2 \<or> lev = 3" for lev :: nat by arith
  then show ?thesis by auto
qed

lemma example_tree_levels_ok: "tree_levels_ok example_tree"
proof -
  have n: "nat (nlevels example_tree) = 4" by (simp add: example_tree_def)
  show ?thesis
    unfolding tree_levels_ok_def all_less_list_all n
    by (simp add: example_tree_def upt_0_4)
qed

lemma example_coarsen_listed_ok:
  "coarsen_listed_ok example_tree [0, 1, 3, 5, 5] [0, 1, 2, 3, 6]"
proof -
  have n: "nat (nlevels example_tree) = 4" by (simp add: example_tree_def)
  have b: "level_boxes [0, 1, 3, 5, 5] [0, 1, 2, 3, 6] 2 = [3, 6]"
    "level_boxes [0, 1, 3, 5, 5] [0, 1, 2, 3, 6] 3 = []"
    by (simp_all add: level_boxes_def py_slice_def clamp_index_def eval_nat_numeral)
  have "\<forall>lev. 2 \<le> lev \<and> lev < (4::nat) \<longrightarrow>
      (\<forall>b \<in> set (level_boxes [0, 1, 3, 5, 5] [0, 1, 2, 3, 6] lev). in_level example_tree lev b)"
    unfolding levels_2_to_3 by (simp add: b in_level_def example_tree_def)
  then show ?thesis
    unfolding coarsen_listed_ok_def n using example_tree_levels_ok by simp
qed

theorem coarsen_multipoles_frame_witness:
  "level_data_ok example_wrangler (expansion_size example_wrangler) \<and>
   multipole_expansions_level_starts example_wrangler = Inr [0, 3, 9, 25, 41] \<and>
   coarsen_multipoles example_kernels example_wrangler [0, 1, 3, 5, 5] [0, 1, 2, 3, 6]
     example_mpoles
   = Inr (replicate 9 1 @ replicate 4 5 @ replicate 8 1 @ replicate 4 5 @ replicate 16 2,
          [Call_mpmp 3 3 7, Call_mpmp 3 3 8, Call_mpmp 3 6 9, Call_mpmp 3 6 10]) \<and>
   (replicate 9 1 @ replicate 4 5 @ replicate 8 1 @ replicate 4 5 @ replicate 16 2) ! 8
     = example_mpoles ! 8 \<and>
   coarsen_call_ok example_wrangler (Call_mpmp 3 6 10) \<and>
   coarsen_listed_ok example_tree [0, 1, 3, 5, 5] [0, 1, 2, 3, 6] \<and>
   c1_coarsen_multipoles example_tree [0, 1, 3, 5, 5] [0, 1, 2, 3, 6]
     [1, 2, 3, 4, 5, 6, 7, 8, 9, 10, 11]
   = Inr [1, 2, 3, 21, 5, 6, 28, 8, 9, 10, 11] \<and>
   [1, 2, 3, 21, 5, 6, 28, 8, 9, 10, 11 :: real] ! 2 = [1, 2, 3, 4, 5, 6, 7, 8, 9, 10, 11] ! 2"
proof -
  note inst = coarsen_multipoles_frame [of example_wrangler "[0, 3, 9, 25, 41]" example_kernels
      "[0, 1, 3, 5, 5]" "[0, 1, 2, 3, 6]" example_mpoles
      "replicate 9 1 @ replicate 4 5 @ replicate 8 1 @ replicate 4 5 @ replicate 16 2"
      "[Call_mpmp 3 3 7, Call_mpmp 3 3 8, Call_mpmp 3 6 9, Call_mpmp 3 6 10]"
      example_tree "[1, 2, 3, 4, 5, 6, 7, 8, 9, 10, 11]" "[1, 2, 3, 21, 5, 6, 28, 8, 9, 10, 11]"]
  from inst example_level_data_ok example_level_starts example_coarsen_run
  have f: "\<forall>i < length example_mpoles. int i < [0, 3, 9, 25, 41] ! 2 \<longrightarrow>
      (replicate 9 1 @ replicate 4 5 @ replicate 8 1 @ replicate 4 5 @ replicate 16 2) ! i
        = example_mpoles ! i"
    and c: "\<forall>c \<in> set [Call_mpmp 3 3 7, Call_mpmp 3 3 8, Call_mpmp 3 6 9, Call_mpmp 3 6 10].
      coarsen_call_ok example_wrangler c"
    by blast+
  from inst example_coarsen_listed_ok example_c1_coarsen_run
  have g: "\<forall>i < length [1, 2, 3, 4, 5, 6, 7, 8, 9, 10, 11 :: real].
      int i < level_start_box_nrs example_tree ! 2 \<longrightarrow>
      [1, 2, 3, 21, 5, 6, 28, 8, 9, 10, 11 :: real] ! i = [1, 2, 3, 4, 5, 6, 7, 8, 9, 10, 11] ! i"
    by blast
  have f8: "(replicate 9 1 @ replicate 4 5 @ replicate 8 1 @ replicate 4 5 @ replicate 16 2) ! 8
     = example_mpoles ! 8"
    using f [rule_format, of 8] by (simp add: example_mpoles_def)
  have c4: "coarsen_call_ok example_wrangler (Call_mpmp 3 6 10)" using c by simp
  have g2: "[1, 2, 3, 21, 5, 6, 28, 8, 9, 10, 11 :: real] ! 2 = [1, 2, 3, 4, 5, 6, 7, 8, 9, 10, 11] ! 2"
    using g [rule_format, of 2] by (simp add: example_tree_def)
  show ?thesis
    by (intro conjI example_level_data_ok example_level_starts example_coarsen_run f8 c4
        example_coarsen_listed_ok example_c1_coarsen_run g2)
qed

section \<open>Boxes without particles\<close>

lemma source_range_emptyD:
  "source_range_empty t b \<Longrightarrow> \<exists>p. get_source_slice t b = Inr p \<and> snd p - fst p = 0"
  by (auto simp: source_range_empty_def split: sum.splits)

lemma target_range_emptyD:
  "target_range_empty w b \<Longrightarrow> \<exists>p. get_target_slice w b = Inr p \<and> snd p - fst p = 0"
  by (auto simp: target_range_empty_def split: sum.splits)

lemma form_multipoles_box_skip:
  "source_range_empty (w_tree w) src_ibox \<Longrightarrow>
     form_multipoles_box k w src_weights lev level_start_ibox mpoles_view rscale src_ibox st = Inr st"
  by (auto simp: form_multipoles_box_def dest!: source_range_emptyD)

lemma eval_direct_source_skip:
  "source_range_empty (w_tree w) src_ibox \<Longrightarrow>
     eval_direct_source ev w src_weights tgt_ibox tgt_pslice src_ibox acc = Inr acc"
  by (auto simp: eval_direct_source_def dest!: source_range_emptyD)

lemma form_locals_source_skip:
  "source_range_empty (w_tree w) src_ibox \<Longrightarrow>
     column (box_centers (w_tree w)) tgt_ibox = Inr center \<Longrightarrow>
     form_locals_source k w src_weights lev tgt_ibox src_ibox acc = Inr acc"
  by (auto simp: form_locals_source_def dest!: source_range_emptyD)

lemma eval_direct_box_skip:
  "target_range_empty w tgt_ibox \<Longrightarrow>
     eval_direct_box ev w neighbor_sources_starts neighbor_sources_lists src_weights
       (itgt_box, tgt_ibox) st = Inr st"
  by (auto simp: eval_direct_box_def dest!: target_range_emptyD)

lemma eval_multipoles_box_skip:
  "target_range_empty w tgt_ibox \<Longrightarrow>
     eval_multipoles_box mpeval' w mpole_exps isrc_level ssn source_view (itgt_box, tgt_ibox) st
       = Inr st"
  by (auto simp: eval_multipoles_box_def dest!: target_range_emptyD)

lemma eval_locals_box_skip:
  "target_range_empty w tgt_ibox \<Longrightarrow>
     eval_locals_box taeval' w local_exps lev source_view tgt_ibox st = Inr st"
  by (auto simp: eval_locals_box_def dest!: target_range_emptyD)

lemma form_multipoles_box_calls:
  assumes "form_multipoles_box k w src_weights lev ls v rscale src_ibox st = Inr st'"
    and "\<forall>c \<in> set (snd st). call_ranges_nonempty w c"
  shows "\<forall>c \<in> set (snd st'). call_ranges_nonempty w c"
proof -
  from assms(1) obtain p where p: "get_source_slice (w_tree w) src_ibox = Inr p"
    by (auto simp: form_multipoles_box_def elim!: bindE_InrE)
  show ?thesis
  proof (cases "snd p - fst p = 0")
    case True
    with assms p show ?thesis by (simp add: form_multipoles_box_def)
  next
    case False
    then have ne: "call_ranges_nonempty w (Call_formmp lev src_ibox)"
      using p by (simp add: call_ranges_nonempty_def source_range_empty_def)
    from assms(1) p False have "snd st' = snd st @ [Call_formmp lev src_ibox]"
      by (auto simp: form_multipoles_box_def elim!: bindE_InrE split: prod.splits if_splits)
    with ne assms(2) show ?thesis by simp
  qed
qed

lemma form_multipoles_calls:
  assumes "form_multipoles k w level_starts boxes src_weights = Inr (mpoles, calls)"
  shows "\<forall>c \<in> set calls. call_ranges_nonempty w c"
proof -
  from assms obtain z where
    f: "foldE (form_multipoles_level k w level_starts boxes src_weights)
          (py_range (nlevels (w_tree w))) (arr_complex z, []) = Inr (mpoles, calls)"
    by (auto simp: form_multipoles_def elim!: bindE_InrE)
  have "\<forall>c \<in> set (snd (mpoles, calls)). call_ranges_nonempty w c"
  proof (rule foldE_invariant [OF f, where I = "\<lambda>a. \<forall>c \<in> set (snd a). call_ranges_nonempty w c"])
    show "\<forall>c \<in> set (snd (arr_complex z, [])). call_ranges_nonempty w c" by simp
  next
    fix lev a b
    assume a: "\<forall>c \<in> set (snd a). call_ranges_nonempty w c"
      and r: "form_multipoles_level k w level_starts boxes src_weights lev a = Inr b"
    from r obtain start stop where
      u: "unpack2 (py_slice level_starts lev (lev + 2)) = Inr (start, stop)"
      by (auto simp: form_multipoles_level_def elim!: bindE_InrE)
    show "\<forall>c \<in> set (snd b). call_ranges_nonempty w c"
    proof (cases "start = stop")
      case True
      with r u a show ?thesis by (simp add: form_multipoles_level_def)
    next
      case False
      with r u obtain ls v where
        g: "foldE (form_multipoles_box k w src_weights lev ls v (level_to_rscale (w_tree w) lev))
              (py_slice boxes start stop) a = Inr b"
        by (auto simp: form_multipoles_level_def elim!: bindE_InrE split: prod.splits)
      show ?thesis
        by (rule foldE_invariant [OF g, where I = "\<lambda>a. \<forall>c \<in> set (snd a). call_ranges_nonempty w c"])
          (use a form_multipoles_box_calls in blast)+
    qed
  qed
  then show ?thesis by simp
qed

lemma eval_direct_source_calls:
  assumes "eval_direct_source ev w src_weights tgt_ibox tgt_pslice src_ibox acc = Inr acc'"
    and "\<not> target_range_empty w tgt_ibox"
    and "\<forall>c \<in> set (snd (snd acc)). call_ranges_nonempty w c"
  shows "\<forall>c \<in> set (snd (snd acc')). call_ranges_nonempty w c"
proof -
  from assms(1) obtain p where p: "get_source_slice (w_tree w) src_ibox = Inr p"
    by (auto simp: eval_direct_source_def elim!: bindE_InrE)
  show ?thesis
  proof (cases "snd p - fst p = 0")
    case True
    with assms p show ?thesis by (simp add: eval_direct_source_def)
  next
    case False
    then have ne: "call_ranges_nonempty w (Call_direct tgt_ibox src_ibox)"
      using p assms(2) by (simp add: call_ranges_nonempty_def source_range_empty_def)
    from assms(1) p False
    have "snd (snd acc') = snd (snd acc) @ [Call_direct tgt_ibox src_ibox]"
      by (auto simp: eval_direct_source_def elim!: bindE_InrE split: prod.splits)
    with ne assms(3) show ?thesis by simp
  qed
qed

lemma eval_direct_box_calls:
  assumes "eval_direct_box ev w starts lists' src_weights tgt st = Inr st'"
    and "\<forall>c \<in> set (snd st). call_ranges_nonempty w c"
  shows "\<forall>c \<in> set (snd st'). call_ranges_nonempty w c"
proof -
  obtain itgt_box tgt_ibox where tgt: "tgt = (itgt_box, tgt_ibox)" by (cases tgt)
  from assms(1) obtain p where p: "get_target_slice w tgt_ibox = Inr p"
    by (auto simp: eval_direct_box_def tgt elim!: bindE_InrE)
  show ?thesis
  proof (cases "snd p - fst p = 0")
    case True
    with assms p show ?thesis by (simp add: eval_direct_box_def tgt)
  next
    case False
    then have ne: "\<not> target_range_empty w tgt_ibox"
      using p by (simp add: target_range_empty_def)
    from assms(1) p False obtain start end' pot grad out where
      f: "foldE (eval_direct_source ev w src_weights tgt_ibox p) (py_slice lists' start end')
            (None, None, snd st) = Inr (pot, grad, snd st')"
      by (auto simp: eval_direct_box_def tgt elim!: bindE_InrE split: prod.splits)
    have "\<forall>c \<in> set (snd (snd (pot, grad, snd st'))). call_ranges_nonempty w c"
      by (rule foldE_invariant [OF f,
            where I = "\<lambda>a. \<forall>c \<in> set (snd (snd a)). call_ranges_nonempty w c"])
        (use assms(2) ne eval_direct_source_calls in \<open>simp, blast\<close>)
    then show ?thesis by simp
  qed
qed

lemma eval_direct_calls:
  assumes "eval_direct k w target_boxes starts lists' src_weights = Inr (out, calls)"
  shows "\<forall>c \<in> set calls. call_ranges_nonempty w c"
proof -
  from assms obtain z ev where
    f: "foldE (eval_direct_box ev w starts lists' src_weights) (enumerate_py target_boxes) (z, [])
          = Inr (out, calls)"
    by (auto simp: eval_direct_def elim!: bindE_InrE)
  have "\<forall>c \<in> set (snd (out, calls)). call_ranges_nonempty w c"
    by (rule foldE_invariant [OF f, where I = "\<lambda>a. \<forall>c \<in> set (snd a). call_ranges_nonempty w c"])
      (use eval_direct_box_calls in \<open>simp, blast\<close>)
  then show ?thesis by simp
qed

lemma eval_multipoles_source_calls:
  assumes "eval_multipoles_source mpeval' w mpole_exps lev sv tgt_ibox tgt_pslice src_ibox acc
             = Inr acc'"
    and "\<not> target_range_empty w tgt_ibox"
    and "\<forall>c \<in> set (snd (snd acc)). call_ranges_nonempty w c"
  shows "\<forall>c \<in> set (snd (snd acc')). call_ranges_nonempty w c"
proof -
  have ne: "call_ranges_nonempty w (Call_mpeval lev tgt_ibox src_ibox)"
    using assms(2) by (simp add: call_ranges_nonempty_def)
  from assms(1) have "snd (snd acc') = snd (snd acc) @ [Call_mpeval lev tgt_ibox src_ibox]"
    by (auto simp: eval_multipoles_source_def elim!: bindE_InrE split: prod.splits)
  with ne assms(3) show ?thesis by simp
qed

lemma eval_multipoles_box_calls:
  assumes "eval_multipoles_box mpeval' w mpole_exps lev ssn sv tgt st = Inr st'"
    and "\<forall>c \<in> set (snd st). call_ranges_nonempty w c"
  shows "\<forall>c \<in> set (snd st'). call_ranges_nonempty w c"
proof -
  obtain itgt_box tgt_ibox where tgt: "tgt = (itgt_box, tgt_ibox)" by (cases tgt)
  from assms(1) obtain p where p: "get_target_slice w tgt_ibox = Inr p"
    by (auto simp: eval_multipoles_box_def tgt elim!: bindE_InrE)
  show ?thesis
  proof (cases "snd p - fst p = 0")
    case True
    with assms p show ?thesis by (simp add: eval_multipoles_box_def tgt)
  next
    case False
    then have ne: "\<not> target_range_empty w tgt_ibox"
      using p by (simp add: target_range_empty_def)
    from assms(1) p False obtain start end' pot grad where
      f: "foldE (eval_multipoles_source mpeval' w mpole_exps lev sv tgt_ibox p)
            (py_slice (csr_lists ssn) start end') (None, None, snd st) = Inr (pot, grad, snd st')"
      by (auto simp: eval_multipoles_box_def tgt elim!: bindE_InrE split: prod.splits)
    have "\<forall>c \<in> set (snd (snd (pot, grad, snd st'))). call_ranges_nonempty w c"
      by (rule foldE_invariant [OF f,
            where I = "\<lambda>a. \<forall>c \<in> set (snd (snd a)). call_ranges_nonempty w c"])
        (use assms(2) ne eval_multipoles_source_calls in \<open>simp, blast\<close>)
    then show ?thesis by simp
  qed
qed

lemma eval_multipoles_calls:
  assumes "eval_multipoles k w level_starts target_boxes ssns mpole_exps = Inr (out, calls)"
  shows "\<forall>c \<in> set calls. call_ranges_nonempty w c"
proof -
  from assms obtain z mpeval' where
    f: "foldE (eval_multipoles_level mpeval' w target_boxes mpole_exps) (enumerate_py ssns) (z, [])
          = Inr (out, calls)"
    by (auto simp: eval_multipoles_def elim!: bindE_InrE)
  have "\<forall>c \<in> set (snd (out, calls)). call_ranges_nonempty w c"
  proof (rule foldE_invariant [OF f, where I = "\<lambda>a. \<forall>c \<in> set (snd a). call_ranges_nonempty w c"])
    show "\<forall>c \<in> set (snd (z, [])). call_ranges_nonempty w c" by simp
  next
    fix lev a b
    assume a: "\<forall>c \<in> set (snd a). call_ranges_nonempty w c"
      and r: "eval_multipoles_level mpeval' w target_boxes mpole_exps lev a = Inr b"
    obtain isrc_level ssn where lev: "lev = (isrc_level, ssn)" by (cases lev)
    from r obtain sv where
      g: "foldE (eval_multipoles_box mpeval' w mpole_exps isrc_level ssn sv)
            (enumerate_py target_boxes) a = Inr b"
      by (auto simp: eval_multipoles_level_def lev elim!: bindE_InrE)
    show "\<forall>c \<in> set (snd b). call_ranges_nonempty w c"
      by (rule foldE_invariant [OF g, where I = "\<lambda>a. \<forall>c \<in> set (snd a). call_ranges_nonempty w c"])
        (use a eval_multipoles_box_calls in blast)+
  qed
  then show ?thesis by simp
qed

lemma form_locals_source_calls:
  assumes "form_locals_source k w src_weights lev tgt_ibox src_ibox acc = Inr acc'"
    and "\<forall>c \<in> set (snd acc). call_ranges_nonempty w c"
  shows "\<forall>c \<in> set (snd acc'). call_ranges_nonempty w c"
proof -
  from assms(1) obtain p where p: "get_source_slice (w_tree w) src_ibox = Inr p"
    by (auto simp: form_locals_source_def elim!: bindE_InrE)
  show ?thesis
  proof (cases "snd p - fst p = 0")
    case True
    with assms p show ?thesis
      by (auto simp: form_locals_source_def elim!: bindE_InrE)
  next
    case False
    then have ne: "call_ranges_nonempty w (Call_formta lev tgt_ibox src_ibox)"
      using p by (simp add: call_ranges_nonempty_def source_range_empty_def)
    from assms(1) p False have "snd acc' = snd acc @ [Call_formta lev tgt_ibox src_ibox]"
      by (auto simp: form_locals_source_def elim!: bindE_InrE split: prod.splits if_splits)
    with ne assms(2) show ?thesis by simp
  qed
qed

lemma form_locals_box_calls:
  assumes "form_locals_box k w starts lists' src_weights lev lev_start tv tgt st = Inr st'"
    and "\<forall>c \<in> set (snd st). call_ranges_nonempty w c"
  shows "\<forall>c \<in> set (snd st'). call_ranges_nonempty w c"
proof -
  obtain itgt_box tgt_ibox where tgt: "tgt = (itgt_box, tgt_ibox)" by (cases tgt)
  from assms(1) obtain start end' contrib where
    f: "foldE (form_locals_source k w src_weights lev tgt_ibox) (py_slice lists' start end')
          (None, snd st) = Inr (contrib, snd st')"
    by (auto simp: form_locals_box_def tgt elim!: bindE_InrE split: prod.splits)
  have "\<forall>c \<in> set (snd (contrib, snd st')). call_ranges_nonempty w c"
    by (rule foldE_invariant [OF f, where I = "\<lambda>a. \<forall>c \<in> set (snd a). call_ranges_nonempty w c"])
      (use assms(2) form_locals_source_calls in \<open>simp, blast\<close>)
  then show ?thesis by simp
qed

lemma form_locals_calls:
  assumes "form_locals k w level_starts boxes starts lists' src_weights = Inr (local_exps, calls)"
  shows "\<forall>c \<in> set calls. call_ranges_nonempty w c"
proof -
  from assms obtain z where
    f: "foldE (form_locals_level k w level_starts boxes starts lists' src_weights)
          (py_range (nlevels (w_tree w))) (arr_complex z, []) = Inr (local_exps, calls)"
    by (auto simp: form_locals_def elim!: bindE_InrE)
  have "\<forall>c \<in> set (snd (local_exps, calls)). call_ranges_nonempty w c"
  proof (rule foldE_invariant [OF f, where I = "\<lambda>a. \<forall>c \<in> set (snd a). call_ranges_nonempty w c"])
    show "\<forall>c \<in> set (snd (arr_complex z, [])). call_ranges_nonempty w c" by simp
  next
    fix lev a b
    assume a: "\<forall>c \<in> set (snd a). call_ranges_nonempty w c"
      and r: "form_locals_level k w level_starts boxes starts lists' src_weights lev a = Inr b"
    from r obtain lev_start lev_stop where
      u: "unpack2 (py_slice level_starts lev (lev + 2)) = Inr (lev_start, lev_stop)"
      by (auto simp: form_locals_level_def elim!: bindE_InrE)
    show "\<forall>c \<in> set (snd b). call_ranges_nonempty w c"
    proof (cases "lev_start = lev_stop")
      case True
      with r u a show ?thesis by (simp add: form_locals_level_def)
    next
      case False
      with r u obtain tv where
        g: "foldE (form_locals_box k w starts lists' src_weights lev lev_start tv)
              (enumerate_py (py_slice boxes lev_start lev_stop)) a = Inr b"
        by (auto simp: form_locals_level_def elim!: bindE_InrE)
      show ?thesis
        by (rule foldE_invariant [OF g, where I = "\<lambda>a. \<forall>c \<in> set (snd a). call_ranges_nonempty w c"])
          (use a form_locals_box_calls in blast)+
    qed
  qed
  then show ?thesis by simp
qed

lemma eval_locals_box_calls:
  assumes "eval_locals_box taeval' w local_exps lev sv tgt_ibox st = Inr st'"
    and "\<forall>c \<in> set (snd st). call_ranges_nonempty w c"
  shows "\<forall>c \<in> set (snd st'). call_ranges_nonempty w c"
proof -
  from assms(1) obtain p where p: "get_target_slice w tgt_ibox = Inr p"
    by (auto simp: eval_locals_box_def elim!: bindE_InrE)
  show ?thesis
  proof (cases "snd p - fst p = 0")
    case True
    with assms p show ?thesis by (simp add: eval_locals_box_def)
  next
    case False
    then have ne: "call_ranges_nonempty w (Call_taeval lev tgt_ibox)"
      using p by (simp add: call_ranges_nonempty_def target_range_empty_def)
    from assms(1) p False have "snd st' = snd st @ [Call_taeval lev tgt_ibox]"
      by (auto simp: eval_locals_box_def elim!: bindE_InrE split: prod.splits)
    with ne assms(2) show ?thesis by simp
  qed
qed

lemma eval_locals_calls:
  assumes "eval_locals k w level_starts target_boxes local_exps = Inr (out, calls)"
  shows "\<forall>c \<in> set calls. call_ranges_nonempty w c"
proof -
  from assms obtain z taeval' where
    f: "foldE (eval_locals_level taeval' w level_starts target_boxes local_exps)
          (py_range (nlevels (w_tree w))) (z, []) = Inr (out, calls)"
    by (auto simp: eval_locals_def elim!: bindE_InrE)
  have "\<forall>c \<in> set (snd (out, calls)). call_ranges_nonempty w c"
  proof (rule foldE_invariant [OF f, where I = "\<lambda>a. \<forall>c \<in> set (snd a). call_ranges_nonempty w c"])
    show "\<forall>c \<in> set (snd (z, [])). call_ranges_nonempty w c" by simp
  next
    fix lev a b
    assume a: "\<forall>c \<in> set (snd a). call_ranges_nonempty w c"
      and r: "eval_locals_level taeval' w level_starts target_boxes local_exps lev a = Inr b"
    from r obtain start stop where
      u: "unpack2 (py_slice level_starts lev (lev + 2)) = Inr (start, stop)"
      by (auto simp: eval_locals_level_def elim!: bindE_InrE)
    show "\<forall>c \<in> set (snd b). call_ranges_nonempty w c"
    proof (cases "start = stop")
      case True
      with r u a show ?thesis by (simp add: eval_locals_level_def)
    next
      case False
      with r u obtain sv where
        g: "foldE (eval_locals_box taeval' w local_exps lev sv) (py_slice target_boxes start stop) a
              = Inr b"
        by (auto simp: eval_locals_level_def elim!: bindE_InrE)
      show ?thesis
        by (rule foldE_invariant [OF g, where I = "\<lambda>a. \<forall>c \<in> set (snd a). call_ranges_nonempty w c"])
          (use a eval_locals_box_calls in blast)+
    qed
  qed
  then show ?thesis by simp
qed

section \<open>The views of a well-formed wrangler\<close>

lemma expansion_shape_nonneg:
  assumes "expansion_shape w order = Inr shape" "0 \<le> order"
  shows "\<forall>d \<in> set shape. 0 \<le> d"
  using assms by (auto simp: expansion_shape_def split: if_splits)

lemma expansions_view_value:
  assumes ok: "wrangler_ok w"
    and ls: "multipole_expansions_level_starts w = Inr offsets"
    and len: "length buf = nat (last offsets)"
    and lev: "lev < nat (nlevels (w_tree w))"
  shows "expansions_view w buf (int lev)
           = Inr (level_start_box_nrs (w_tree w) ! lev, level_view w offsets lev)"
proof -
  let ?lsb = "level_start_box_nrs (w_tree w)"
  let ?n = "nat (nlevels (w_tree w))"
  have dok: "level_data_ok w (expansion_size w)" using ok by (simp add: wrangler_ok_def)
  have run: "expansions_level_starts w (expansion_size w) = Inr offsets"
    using ls by (simp add: multipole_expansions_level_starts_def)
  note d = level_data_okD [OF dok lev]
  from d(4) obtain sz where sz: "expansion_size w (level_nterms w ! lev) = Inr sz" "0 \<le> sz"
    by blast
  then obtain shape where sh: "expansion_shape w (level_nterms w ! lev) = Inr shape"
    "product shape = sz"
    by (auto simp: expansion_size_def elim!: bindE_InrE)
  have ord: "0 \<le> level_nterms w ! lev" using ok lev by (simp add: wrangler_ok_def)
  have dims: "\<not> (\<exists>d \<in> set shape. d < 0)"
    using expansion_shape_nonneg [OF sh(1) ord] by auto
  note s = level_starts_sorted [OF dok run]
  from level_starts_value [OF dok] run have
    val: "\<forall>k \<le> ?n. offsets ! k = (\<Sum>l<k. region_size w (expansion_size w) l)" by auto
  have diff: "offsets ! Suc lev - offsets ! lev = sz * (?lsb ! Suc lev - ?lsb ! lev)"
    using val lev sz by (simp add: region_size_def)
  have ne: "offsets \<noteq> []" using s(1) by auto
  have lastn: "last offsets = offsets ! ?n" using s(1) by (simp add: last_conv_nth [OF ne])
  have a0: "0 \<le> offsets ! lev" using s(3) [of lev] lev by simp
  have a1: "offsets ! lev \<le> offsets ! Suc lev" using s(2) [of lev "Suc lev"] lev by simp
  have a2: "offsets ! Suc lev \<le> last offsets" using s(2) [of "Suc lev" ?n] lev lastn by simp
  have u1: "unpack2 (py_slice ?lsb (int lev) (int lev + 2)) = Inr (?lsb ! lev, ?lsb ! Suc lev)"
    using unpack2_slice [of "int lev" ?lsb] d(1) by simp
  have u2: "unpack2 (py_slice offsets (int lev) (int lev + 2)) = Inr (offsets ! lev, offsets ! Suc lev)"
    using unpack2_slice [of "int lev" offsets] s(1) lev by simp
  have g: "getitem (level_nterms w) (int lev) = Inr (level_nterms w ! lev)"
    using d(2) by (simp add: getitem_nat)
  have lo: "clamp_index (length buf) (offsets ! lev) = nat (offsets ! lev)"
    using a0 a1 a2 len by (simp add: clamp_index_nonneg)
  have hi: "clamp_index (length buf) (offsets ! Suc lev) = nat (offsets ! Suc lev)"
    using a0 a1 a2 len by (simp add: clamp_index_nonneg)
  have sizes: "(?lsb ! Suc lev - ?lsb ! lev) * product shape
      = int (nat (offsets ! Suc lev) - nat (offsets ! lev))"
    using diff a0 a1 sh(2) by (simp add: mult.commute)
  have r: "reshape_view buf (offsets ! lev) (offsets ! Suc lev) (?lsb ! Suc lev - ?lsb ! lev) shape
      = Inr (level_view w offsets lev)"
    using d(3) dims sizes sz sh
    by (simp add: reshape_view_def lo hi level_view_def Let_def)
  show ?thesis
    by (simp add: expansions_view_def u1 ls u2 g sh r)
qed

lemma level_view_inside:
  assumes ok: "wrangler_ok w"
    and ls: "multipole_expansions_level_starts w = Inr offsets"
    and lev: "lev < nat (nlevels (w_tree w))"
  shows "v_start (level_view w offsets lev)
           + v_nrows (level_view w offsets lev) * v_rowlen (level_view w offsets lev)
         = nat (offsets ! Suc lev)"
    and "nat (offsets ! lev) \<le> nat (offsets ! Suc lev)"
    and "nat (offsets ! Suc lev) \<le> nat (last offsets)"
proof -
  let ?lsb = "level_start_box_nrs (w_tree w)"
  let ?n = "nat (nlevels (w_tree w))"
  have dok: "level_data_ok w (expansion_size w)" using ok by (simp add: wrangler_ok_def)
  have run: "expansions_level_starts w (expansion_size w) = Inr offsets"
    using ls by (simp add: multipole_expansions_level_starts_def)
  note d = level_data_okD [OF dok lev]
  from d(4) obtain sz where sz: "expansion_size w (level_nterms w ! lev) = Inr sz" "0 \<le> sz"
    by blast
  note s = level_starts_sorted [OF dok run]
  from level_starts_value [OF dok] run have
    val: "\<forall>k \<le> ?n. offsets ! k = (\<Sum>l<k. region_size w (expansion_size w) l)" by auto
  have diff: "offsets ! Suc lev - offsets ! lev = sz * (?lsb ! Suc lev - ?lsb ! lev)"
    using val lev sz by (simp add: region_size_def)
  have ne: "offsets \<noteq> []" using s(1) by auto
  have lastn: "last offsets = offsets ! ?n" using s(1) by (simp add: last_conv_nth [OF ne])
  have a0: "0 \<le> offsets ! lev" using s(3) [of lev] lev by simp
  have a1: "offsets ! lev \<le> offsets ! Suc lev" using s(2) [of lev "Suc lev"] lev by simp
  have a2: "offsets ! Suc lev \<le> last offsets" using s(2) [of "Suc lev" ?n] lev lastn by simp
  show "nat (offsets ! lev) \<le> nat (offsets ! Suc lev)" using a1 by simp
  show "nat (offsets ! Suc lev) \<le> nat (last offsets)" using a2 by simp
  have "int (nat (?lsb ! Suc lev - ?lsb ! lev) * nat sz) = offsets ! Suc lev - offsets ! lev"
    using diff d(3) sz(2) by (simp add: mult.commute)
  then have "nat (?lsb ! Suc lev - ?lsb ! lev) * nat sz = nat (offsets ! Suc lev) - nat (offsets ! lev)"
    using a0 a1 by linarith
  then show "v_start (level_view w offsets lev)
           + v_nrows (level_view w offsets lev) * v_rowlen (level_view w offsets lev)
         = nat (offsets ! Suc lev)"
    using a0 a1 sz by (simp add: level_view_def)
qed

lemma py_range_set: "lev \<in> set (py_range n) \<Longrightarrow> 0 \<le> lev \<and> lev < n"
  by (auto simp: py_range_def)

lemma in_level_row:
  assumes "in_level t lev b" "t = w_tree w"
  shows "view_row (level_view w offsets lev) (b - level_start_box_nrs t ! lev)
           = Inr (nat (b - level_start_box_nrs t ! lev))"
    and "nat (b - level_start_box_nrs t ! lev) < v_nrows (level_view w offsets lev)"
  using assms by (auto simp: in_level_def view_row_def level_view_def)

lemma row_in_region:
  assumes ok: "wrangler_ok w"
    and ls: "multipole_expansions_level_starts w = Inr offsets"
    and lev: "lev < nat (nlevels (w_tree w))"
    and b: "in_level (w_tree w) lev b"
  shows "nat (offsets ! lev) \<le> row_start w offsets lev b"
    and "row_start w offsets lev b + v_rowlen (level_view w offsets lev) \<le> nat (offsets ! Suc lev)"
proof -
  let ?v = "level_view w offsets lev"
  let ?k = "nat (b - level_start_box_nrs (w_tree w) ! lev)"
  show "nat (offsets ! lev) \<le> row_start w offsets lev b"
    by (simp add: row_start_def level_view_def)
  have "?k < v_nrows ?v" using in_level_row(2) [OF b refl] .
  then have "Suc ?k * v_rowlen ?v \<le> v_nrows ?v * v_rowlen ?v"
    by (intro mult_le_mono1) simp
  then show "row_start w offsets lev b + v_rowlen ?v \<le> nat (offsets ! Suc lev)"
    using level_view_inside(1) [OF ok ls lev] by (simp add: row_start_def)
qed

text \<open>A step of \<open>form_multipoles\<close> for a box writes inside the row of that box only.\<close>

lemma form_multipoles_box_frame:
  assumes ok: "wrangler_ok w"
    and ls: "multipole_expansions_level_starts w = Inr offsets"
    and len: "length (fst st) = nat (last offsets)"
    and lev: "lev < nat (nlevels (w_tree w))"
    and b: "in_level (w_tree w) lev b"
    and run: "form_multipoles_box k w src_weights (int lev) (level_start_box_nrs (w_tree w) ! lev)
                (level_view w offsets lev) rscale b st = Inr st'"
  shows "length (fst st') = nat (last offsets)"
    and "\<And>i. i < row_start w offsets lev b \<Longrightarrow> fst st' ! i = fst st ! i"
    and "\<And>i. row_start w offsets lev b + v_rowlen (level_view w offsets lev) \<le> i \<Longrightarrow>
           i < nat (last offsets) \<Longrightarrow> fst st' ! i = fst st ! i"
    and "source_range_empty (w_tree w) b \<Longrightarrow> st' = st"
proof -
  let ?v = "level_view w offsets lev"
  let ?k = "nat (b - level_start_box_nrs (w_tree w) ! lev)"
  have kn: "?k < v_nrows ?v" using in_level_row(2) [OF b refl] .
  have vb: "v_start ?v + v_nrows ?v * v_rowlen ?v \<le> length (fst st)"
    using level_view_inside [OF ok ls lev] len by simp
  show "st' = st" if "source_range_empty (w_tree w) b"
    using form_multipoles_box_skip [OF that] run by simp
  consider "st' = st"
    | mpole where "view_set (fst st) ?v (b - level_start_box_nrs (w_tree w) ! lev) mpole
                     = Inr (fst st')"
    using run
    by (auto simp: form_multipoles_box_def elim!: bindE_InrE split: if_splits prod.splits)
  then have "length (fst st') = nat (last offsets) \<and>
      (\<forall>i. i < row_start w offsets lev b \<longrightarrow> fst st' ! i = fst st ! i) \<and>
      (\<forall>i. row_start w offsets lev b + v_rowlen ?v \<le> i \<longrightarrow> i < nat (last offsets) \<longrightarrow>
           fst st' ! i = fst st ! i)"
  proof cases
    case 1
    then show ?thesis using len by simp
  next
    case 2
    then have l: "length mpole = v_rowlen ?v" and w: "fst st' = write_row (fst st) ?v ?k mpole"
      using in_level_row(1) [OF b refl]
      by (auto simp: view_set_def split: if_splits)
    note fr = write_row_frame [OF kn vb l]
    show ?thesis
      using fr(1) fr(2) fr(3) len by (simp add: w row_start_def)
  qed
  then show "length (fst st') = nat (last offsets)"
    and "\<And>i. i < row_start w offsets lev b \<Longrightarrow> fst st' ! i = fst st ! i"
    and "\<And>i. row_start w offsets lev b + v_rowlen ?v \<le> i \<Longrightarrow>
           i < nat (last offsets) \<Longrightarrow> fst st' ! i = fst st ! i"
    by blast+
qed

text \<open>The rows of two different boxes do not overlap.\<close>

lemma rows_disjoint:
  assumes ok: "wrangler_ok w"
    and ls: "multipole_expansions_level_starts w = Inr offsets"
    and lev: "lev < nat (nlevels (w_tree w))" "lev0 < nat (nlevels (w_tree w))"
    and b: "in_level (w_tree w) lev b" "in_level (w_tree w) lev0 b0"
    and ne: "lev \<noteq> lev0 \<or> b \<noteq> b0"
  shows "row_start w offsets lev0 b0 + v_rowlen (level_view w offsets lev0)
           \<le> row_start w offsets lev b
         \<or> row_start w offsets lev b + v_rowlen (level_view w offsets lev)
           \<le> row_start w offsets lev0 b0"
proof -
  have dok: "level_data_ok w (expansion_size w)" using ok by (simp add: wrangler_ok_def)
  have run: "expansions_level_starts w (expansion_size w) = Inr offsets"
    using ls by (simp add: multipole_expansions_level_starts_def)
  note s = level_starts_sorted [OF dok run]
  note r = row_in_region [OF ok ls lev(1) b(1)]
  note r0 = row_in_region [OF ok ls lev(2) b(2)]
  consider "lev < lev0" | "lev0 < lev" | "lev = lev0" "b \<noteq> b0" using ne by linarith
  then show ?thesis
  proof cases
    case 1
    then have "offsets ! Suc lev \<le> offsets ! lev0" using s(2) [of "Suc lev" lev0] lev by simp
    then have "nat (offsets ! Suc lev) \<le> nat (offsets ! lev0)" by simp
    with r(2) r0(1) show ?thesis by linarith
  next
    case 2
    then have "offsets ! Suc lev0 \<le> offsets ! lev" using s(2) [of "Suc lev0" lev] lev by simp
    then have "nat (offsets ! Suc lev0) \<le> nat (offsets ! lev)" by simp
    with r0(2) r(1) show ?thesis by linarith
  next
    case 3
    let ?L = "v_rowlen (level_view w offsets lev)"
    let ?lsb = "level_start_box_nrs (w_tree w) ! lev"
    have ge: "?lsb \<le> b" "?lsb \<le> b0" using b 3 by (simp_all add: in_level_def)
    show ?thesis
    proof (cases "b < b0")
      case True
      then have "Suc (nat (b - ?lsb)) \<le> nat (b0 - ?lsb)" using ge by simp
      then have "Suc (nat (b - ?lsb)) * ?L \<le> nat (b0 - ?lsb) * ?L" by (rule mult_le_mono1)
      then show ?thesis using 3 by (simp add: row_start_def)
    next
      case False
      with 3 have "b0 < b" by simp
      then have "Suc (nat (b0 - ?lsb)) \<le> nat (b - ?lsb)" using ge by simp
      then have "Suc (nat (b0 - ?lsb)) * ?L \<le> nat (b - ?lsb) * ?L" by (rule mult_le_mono1)
      then show ?thesis using 3 by (simp add: row_start_def)
    qed
  qed
qed

lemma multipole_expansion_zeros_value:
  assumes ok: "wrangler_ok w" and ls: "multipole_expansions_level_starts w = Inr offsets"
  shows "multipole_expansion_zeros w = Inr (ComplexArr (replicate (nat (last offsets)) 0))"
proof -
  have dok: "level_data_ok w (expansion_size w)" and dt: "dtype w = Complex128"
    using ok by (simp_all add: wrangler_ok_def)
  from level_starts_last_nonneg [OF dok] ls have "offsets \<noteq> []" "0 \<le> last offsets"
    by (auto simp: multipole_expansions_level_starts_def)
  then show ?thesis
    using ls dt by (simp add: multipole_expansion_zeros_def getitem_last np_zeros_def)
qed

lemma form_multipoles_empty_row_zero:
  assumes ok: "wrangler_ok w"
    and listed: "listed_in_levels (w_tree w) level_starts boxes"
    and ls: "multipole_expansions_level_starts w = Inr offsets"
    and run: "form_multipoles k w level_starts boxes src_weights = Inr (mpoles, calls)"
    and lev0: "lev0 < nat (nlevels (w_tree w))"
    and b0: "in_level (w_tree w) lev0 b0"
    and empty: "source_range_empty (w_tree w) b0"
  shows "length mpoles = nat (last offsets) \<and>
         (\<forall>j < v_rowlen (level_view w offsets lev0). mpoles ! (row_start w offsets lev0 b0 + j) = 0)"
proof -
  let ?N = "nat (last offsets)"
  let ?R = "row_start w offsets lev0 b0"
  let ?L = "v_rowlen (level_view w offsets lev0)"
  let ?J = "\<lambda>a :: complex list \<times> kernel_call list.
    length (fst a) = ?N \<and> (\<forall>j < ?L. fst a ! (?R + j) = 0)"
  have inside: "?R + ?L \<le> ?N"
    using row_in_region(2) [OF ok ls lev0 b0] level_view_inside(3) [OF ok ls lev0] by linarith
  from run multipole_expansion_zeros_value [OF ok ls] have
    f: "foldE (form_multipoles_level k w level_starts boxes src_weights)
          (py_range (nlevels (w_tree w))) (replicate ?N 0, []) = Inr (mpoles, calls)"
    by (simp add: form_multipoles_def)
  have "?J (mpoles, calls)"
  proof (rule foldE_invariant [OF f, where I = ?J])
    show "?J (replicate ?N 0, [])" using inside by simp
  next
    fix lev a c
    assume l: "lev \<in> set (py_range (nlevels (w_tree w)))" and a: "?J a"
      and r: "form_multipoles_level k w level_starts boxes src_weights lev a = Inr c"
    define l' where "l' = nat lev"
    from py_range_set [OF l] have lv: "0 \<le> lev" "l' < nat (nlevels (w_tree w))" "lev = int l'"
      by (auto simp: l'_def)
    from r obtain start stop where
      u: "unpack2 (py_slice level_starts lev (lev + 2)) = Inr (start, stop)"
      by (auto simp: form_multipoles_level_def elim!: bindE_InrE)
    show "?J c"
    proof (cases "start = stop")
      case True
      with r u a show ?thesis by (simp add: form_multipoles_level_def)
    next
      case False
      from unpack2_slice_Inr [OF lv(1) u] have "start = level_starts ! l'" "stop = level_starts ! Suc l'"
        by (simp_all add: l'_def)
      then have xs: "py_slice boxes start stop = level_boxes level_starts boxes l'"
        by (simp add: level_boxes_def)
      have v: "multipole_expansions_view w (fst a) lev
          = Inr (level_start_box_nrs (w_tree w) ! l', level_view w offsets l')"
        using expansions_view_value [OF ok ls _ lv(2), of "fst a"] a
        by (simp add: multipole_expansions_view_def lv(3))
      from r u False v have
        g: "foldE (form_multipoles_box k w src_weights (int l') (level_start_box_nrs (w_tree w) ! l')
                     (level_view w offsets l') (level_to_rscale (w_tree w) lev))
              (level_boxes level_starts boxes l') a = Inr c"
        by (simp add: form_multipoles_level_def xs lv(3))
      show ?thesis
      proof (rule foldE_invariant [OF g, where I = ?J])
        show "?J a" by (rule a)
      next
        fix b d e
        assume bm: "b \<in> set (level_boxes level_starts boxes l')" and d: "?J d"
          and rb: "form_multipoles_box k w src_weights (int l') (level_start_box_nrs (w_tree w) ! l')
                     (level_view w offsets l') (level_to_rscale (w_tree w) lev) b d = Inr e"
        have bl: "in_level (w_tree w) l' b"
          using listed lv(2) bm by (simp add: listed_in_levels_def)
        from d have dl: "length (fst d) = ?N" by simp
        note fr = form_multipoles_box_frame [OF ok ls dl lv(2) bl rb]
        show "?J e"
        proof (cases "l' = lev0 \<and> b = b0")
          case True
          with fr(4) empty d show ?thesis by simp
        next
          case False
          then have "l' \<noteq> lev0 \<or> b \<noteq> b0" by simp
          from rows_disjoint [OF ok ls lv(2) lev0 bl b0 this]
          have dis: "?R + ?L \<le> row_start w offsets l' b
              \<or> row_start w offsets l' b + v_rowlen (level_view w offsets l') \<le> ?R" .
          have "fst e ! (?R + j) = 0" if "j < ?L" for j
          proof -
            have "fst e ! (?R + j) = fst d ! (?R + j)"
              using dis
            proof
              assume "?R + ?L \<le> row_start w offsets l' b"
              then have "?R + j < row_start w offsets l' b" using that by simp
              then show ?thesis by (rule fr(2))
            next
              assume "row_start w offsets l' b + v_rowlen (level_view w offsets l') \<le> ?R"
              then have "row_start w offsets l' b + v_rowlen (level_view w offsets l') \<le> ?R + j"
                by simp
              moreover have "?R + j < ?N" using that inside by simp
              ultimately show ?thesis by (rule fr(3))
            qed
            with d that show ?thesis by simp
          qed
          with fr(1) show ?thesis by simp
        qed
      qed
    qed
  qed
  then show ?thesis by simp
qed

section \<open>Boxes without particles\<close>

lemma form_multipoles_empty_box_zero:
  assumes ok: "wrangler_ok w"
    and listed: "listed_in_levels (w_tree w) level_starts boxes"
    and run: "form_multipoles k w level_starts boxes src_weights = Inr (mpoles, calls)"
    and lev0: "lev0 < nat (nlevels (w_tree w))"
    and b0: "in_level (w_tree w) lev0 b0"
    and empty: "source_range_empty (w_tree w) b0"
  shows "\<exists>row. box_expansion w mpoles (int lev0) b0 = Inr row \<and> list_all (\<lambda>c. c = 0) row"
proof -
  from run obtain offsets where ls: "multipole_expansions_level_starts w = Inr offsets"
    by (auto simp: form_multipoles_def multipole_expansion_zeros_def elim!: bindE_InrE)
  let ?v = "level_view w offsets lev0"
  let ?R = "row_start w offsets lev0 b0"
  let ?N = "nat (last offsets)"
  from form_multipoles_empty_row_zero [OF ok listed ls run lev0 b0 empty]
  have len: "length mpoles = ?N" and z: "\<forall>j < v_rowlen ?v. mpoles ! (?R + j) = 0"
    by simp_all
  have inside: "?R + v_rowlen ?v \<le> ?N"
    using row_in_region(2) [OF ok ls lev0 b0] level_view_inside(3) [OF ok ls lev0] by linarith
  have v: "expansions_view w mpoles (int lev0)
      = Inr (level_start_box_nrs (w_tree w) ! lev0, ?v)"
    by (rule expansions_view_value [OF ok ls len lev0])
  have r: "view_row ?v (b0 - level_start_box_nrs (w_tree w) ! lev0)
      = Inr (nat (b0 - level_start_box_nrs (w_tree w) ! lev0))"
    by (rule in_level_row(1) [OF b0 refl])
  have be: "box_expansion w mpoles (int lev0) b0
      = Inr (take (v_rowlen ?v) (drop ?R mpoles))"
    by (simp add: box_expansion_def v view_get_def r read_row_def row_start_def)
  have "list_all (\<lambda>c. c = 0) (take (v_rowlen ?v) (drop ?R mpoles))"
    unfolding list_all_length
  proof (intro allI impI)
    fix j assume "j < length (take (v_rowlen ?v) (drop ?R mpoles))"
    then have j: "j < v_rowlen ?v" by simp
    with inside len have "?R + j \<le> length mpoles" by simp
    then have "take (v_rowlen ?v) (drop ?R mpoles) ! j = mpoles ! (?R + j)"
      using j by simp
    with z j show "take (v_rowlen ?v) (drop ?R mpoles) ! j = 0" by simp
  qed
  with be show ?thesis by blast
qed

lemma form_locals_source_empty:
  "source_range_empty (w_tree w) src_ibox \<Longrightarrow>
     form_locals_source k w src_weights lev tgt_ibox src_ibox acc
       = bindE (column (box_centers (w_tree w)) tgt_ibox) (\<lambda>tgt_center. Inr acc)"
  by (auto simp: form_locals_source_def dest!: source_range_emptyD)

lemma example_wrangler_ok: "wrangler_ok example_wrangler"
proof -
  have "\<forall>lev < nat (nlevels (w_tree example_wrangler)). 0 \<le> level_nterms example_wrangler ! lev"
    unfolding all_less_list_all example_nlevels
    by (simp add: upt_0_4 example_wrangler_def)
  then show ?thesis
    using example_level_data_ok by (simp add: wrangler_ok_def example_wrangler_def)
qed

lemma example_listed_in_levels:
  "listed_in_levels (w_tree example_wrangler) [0, 1, 3, 7, 11] example_all_boxes"
proof -
  have t: "w_tree example_wrangler = example_tree" by (simp add: example_wrangler_def)
  have n: "nat (nlevels example_tree) = 4" by (simp add: example_tree_def)
  have b0: "level_boxes [0, 1, 3, 7, 11] [0, 1, 2, 3, 4, 5, 6, 7, 8, 9, 10] 0 = [0]"
    by (simp add: level_boxes_def py_slice_def clamp_index_def eval_nat_numeral)
  show ?thesis
    unfolding listed_in_levels_def t n all_less_list_all example_all_boxes_def
    by (simp add: upt_0_4 b0 example_level_boxes in_level_def example_tree_def)
qed

lemma example_form_multipoles_run:
  "form_multipoles example_kernels example_wrangler [0, 1, 3, 7, 11] example_all_boxes
     example_weights
   = Inr (replicate 13 0 @ replicate 4 3 @ replicate 4 1 @ replicate 4 0 @ replicate 4 2
            @ replicate 4 1 @ replicate 4 2 @ replicate 4 1,
          [Call_formmp 2 4, Call_formmp 2 5, Call_formmp 3 7, Call_formmp 3 8,
           Call_formmp 3 9, Call_formmp 3 10])"
  by code_simp

lemma example_eval_direct_run:
  "eval_direct example_kernels example_wrangler [4, 6] [0, 3, 4] [4, 6, 5, 4] example_weights
   = Inr (OutArr (replicate 3 0 @ replicate 3 4 @ replicate 4 0),
          [Call_direct 4 4, Call_direct 4 5])"
  by code_simp

lemma example_form_locals_run:
  "form_locals example_kernels example_wrangler [0, 1, 3, 7, 11] example_all_boxes
     [0, 0, 0, 0, 0, 2, 2, 2, 2, 2, 2, 2] [6, 5] example_weights
   = Inr (replicate 13 0 @ replicate 4 1 @ replicate 24 0, [Call_formta 2 4 5])"
  by code_simp

lemma example_eval_multipoles_run:
  "eval_multipoles example_kernels example_wrangler [0, 0, 0, 2, 2] [4, 6] example_by_level
     example_mpoles
   = Inr (OutArr (replicate 3 0 @ replicate 3 2 @ replicate 4 0), [Call_mpeval 3 4 7])"
  by code_simp

lemma example_eval_locals_run:
  "eval_locals example_kernels example_wrangler [0, 0, 0, 2, 2] [4, 6] example_mpoles
   = Inr (OutArr (replicate 3 0 @ replicate 3 1 @ replicate 4 0), [Call_taeval 2 4])"
  by code_simp

lemma example_box_6_empty:
  "source_range_empty (w_tree example_wrangler) 6" "target_range_empty example_wrangler 6"
  by code_simp+

text \<open>
  Claim C6. A box whose range of sources is empty makes the box step of
  \<open>form_multipoles\<close> and the source steps of \<open>eval_direct\<close> and \<open>form_locals\<close> return
  the state they were given (for \<open>form_locals\<close>, after the look-up of the centre of the
  target box): no kernel routine is called and nothing is written. A box whose range of
  targets is empty makes the box steps of \<open>eval_direct\<close>, \<open>eval_multipoles\<close> and
  \<open>eval_locals\<close> return the output and the record of calls they were given. In every
  run of one of the five passes, each recorded call of a kernel routine is for boxes
  whose ranges are not empty. After \<open>form_multipoles\<close> of a well-formed wrangler on a
  list of boxes sorted into levels, the coefficients of a box without sources are all
  zero.
\<close>

theorem empty_ranges_no_op:
  "(source_range_empty (w_tree w) src_ibox \<longrightarrow>
      form_multipoles_box k w src_weights lev level_start_ibox mpoles_view rscale src_ibox st
        = Inr st \<and>
      eval_direct_source ev w src_weights tgt_ibox tgt_pslice src_ibox acc = Inr acc \<and>
      form_locals_source k w src_weights lev tgt_ibox src_ibox contrib
        = bindE (column (box_centers (w_tree w)) tgt_ibox) (\<lambda>tgt_center. Inr contrib)) \<and>
   (target_range_empty w tgt_ibox \<longrightarrow>
      eval_direct_box ev w nbr_starts nbr_lists src_weights (itgt_box, tgt_ibox) out = Inr out \<and>
      eval_multipoles_box mpeval' w exps isrc_level ssn source_view (itgt_box, tgt_ibox) out
        = Inr out \<and>
      eval_locals_box taeval' w exps lev source_view tgt_ibox out = Inr out) \<and>
   (form_multipoles k w level_starts boxes src_weights = Inr (mpoles, calls_formmp) \<longrightarrow>
      list_all (call_ranges_nonempty w) calls_formmp \<and>
      (wrangler_ok w \<and> listed_in_levels (w_tree w) level_starts boxes \<and>
       src_lev < nat (nlevels (w_tree w)) \<and> in_level (w_tree w) src_lev src_ibox \<and>
       source_range_empty (w_tree w) src_ibox \<longrightarrow>
         (\<exists>row. box_expansion w mpoles (int src_lev) src_ibox = Inr row \<and>
                list_all (\<lambda>c. c = 0) row))) \<and>
   (eval_direct k w target_boxes nbr_starts nbr_lists src_weights = Inr (out_direct, calls_direct) \<longrightarrow>
      list_all (call_ranges_nonempty w) calls_direct) \<and>
   (form_locals k w level_starts boxes starts lists' src_weights = Inr (local_exps, calls_formta) \<longrightarrow>
      list_all (call_ranges_nonempty w) calls_formta) \<and>
   (eval_multipoles k w tgt_level_starts target_boxes by_level exps = Inr (out_mpeval, calls_mpeval) \<longrightarrow>
      list_all (call_ranges_nonempty w) calls_mpeval) \<and>
   (eval_locals k w tgt_level_starts target_boxes exps = Inr (out_taeval, calls_taeval) \<longrightarrow>
      list_all (call_ranges_nonempty w) calls_taeval)"
proof (intro conjI impI)
  assume "source_range_empty (w_tree w) src_ibox"
  then show "form_multipoles_box k w src_weights lev level_start_ibox mpoles_view rscale src_ibox st
        = Inr st"
    by (rule form_multipoles_box_skip)
next
  assume "source_range_empty (w_tree w) src_ibox"
  then show "eval_direct_source ev w src_weights tgt_ibox tgt_pslice src_ibox acc = Inr acc"
    by (rule eval_direct_source_skip)
next
  assume "source_range_empty (w_tree w) src_ibox"
  then show "form_locals_source k w src_weights lev tgt_ibox src_ibox contrib
        = bindE (column (box_centers (w_tree w)) tgt_ibox) (\<lambda>tgt_center. Inr contrib)"
    by (rule form_locals_source_empty)
next
  assume "target_range_empty w tgt_ibox"
  then show "eval_direct_box ev w nbr_starts nbr_lists src_weights (itgt_box, tgt_ibox) out = Inr out"
    by (rule eval_direct_box_skip)
next
  assume "target_range_empty w tgt_ibox"
  then show "eval_multipoles_box mpeval' w exps isrc_level ssn source_view (itgt_box, tgt_ibox) out
        = Inr out"
    by (rule eval_multipoles_box_skip)
next
  assume "target_range_empty w tgt_ibox"
  then show "eval_locals_box taeval' w exps lev source_view tgt_ibox out = Inr out"
    by (rule eval_locals_box_skip)
next
  assume "form_multipoles k w level_starts boxes src_weights = Inr (mpoles, calls_formmp)"
  from form_multipoles_calls [OF this]
  show "list_all (call_ranges_nonempty w) calls_formmp" by (simp add: list_all_iff)
next
  assume run: "form_multipoles k w level_starts boxes src_weights = Inr (mpoles, calls_formmp)"
    and h: "wrangler_ok w \<and> listed_in_levels (w_tree w) level_starts boxes \<and>
       src_lev < nat (nlevels (w_tree w)) \<and> in_level (w_tree w) src_lev src_ibox \<and>
       source_range_empty (w_tree w) src_ibox"
  from h have ok: "wrangler_ok w" and li: "listed_in_levels (w_tree w) level_starts boxes"
    and l0: "src_lev < nat (nlevels (w_tree w))" and b0: "in_level (w_tree w) src_lev src_ibox"
    and e: "source_range_empty (w_tree w) src_ibox" by simp_all
  show "\<exists>row. box_expansion w mpoles (int src_lev) src_ibox = Inr row \<and> list_all (\<lambda>c. c = 0) row"
    by (rule form_multipoles_empty_box_zero [OF ok li run l0 b0 e])
next
  assume "eval_direct k w target_boxes nbr_starts nbr_lists src_weights = Inr (out_direct, calls_direct)"
  from eval_direct_calls [OF this]
  show "list_all (call_ranges_nonempty w) calls_direct" by (simp add: list_all_iff)
next
  assume "form_locals k w level_starts boxes starts lists' src_weights = Inr (local_exps, calls_formta)"
  from form_locals_calls [OF this]
  show "list_all (call_ranges_nonempty w) calls_formta" by (simp add: list_all_iff)
next
  assume "eval_multipoles k w tgt_level_starts target_boxes by_level exps = Inr (out_mpeval, calls_mpeval)"
  from eval_multipoles_calls [OF this]
  show "list_all (call_ranges_nonempty w) calls_mpeval" by (simp add: list_all_iff)
next
  assume "eval_locals k w tgt_level_starts target_boxes exps = Inr (out_taeval, calls_taeval)"
  from eval_locals_calls [OF this]
  show "list_all (call_ranges_nonempty w) calls_taeval" by (simp add: list_all_iff)
qed

theorem empty_ranges_no_op_witness:
  "source_range_empty (w_tree example_wrangler) 6 \<and>
   target_range_empty example_wrangler 6 \<and>
   form_multipoles_box example_kernels example_wrangler example_weights 2 3
     \<lparr>v_start = 9, v_nrows = 4, v_rowlen = 4\<rparr> 1 6 (example_mpoles, [])
     = Inr (example_mpoles, []) \<and>
   eval_direct_source (\<lambda>src tgt zk kwargs. ([], None)) example_wrangler example_weights 6 (3, 6) 6
     (None, None, []) = Inr (None, None, []) \<and>
   form_locals_source example_kernels example_wrangler example_weights 2 6 6 (None, [])
     = Inr (None, []) \<and>
   eval_direct_box (\<lambda>src tgt zk kwargs. ([], None)) example_wrangler [0, 3, 4] [4, 6, 5, 4]
     example_weights (1, 6) (OutArr (replicate 10 0), [])
     = Inr (OutArr (replicate 10 0), []) \<and>
   eval_multipoles_box (\<lambda>rscale center expn ztarg zk. Inl ValueError) example_wrangler
     example_mpoles 3 \<lparr>csr_starts = [0, 1, 2], csr_lists = [7, 10]\<rparr>
     (3, \<lparr>v_start = 9, v_nrows = 4, v_rowlen = 4\<rparr>) (1, 6) (OutArr (replicate 10 0), [])
     = Inr (OutArr (replicate 10 0), []) \<and>
   eval_locals_box (\<lambda>rscale center expn ztarg zk. Inl ValueError) example_wrangler
     example_mpoles 2 (3, \<lparr>v_start = 9, v_nrows = 4, v_rowlen = 4\<rparr>) 6
     (OutArr (replicate 10 0), [])
     = Inr (OutArr (replicate 10 0), []) \<and>
   form_multipoles example_kernels example_wrangler [0, 1, 3, 7, 11] example_all_boxes
     example_weights
   = Inr (replicate 13 0 @ replicate 4 3 @ replicate 4 1 @ replicate 4 0 @ replicate 4 2
            @ replicate 4 1 @ replicate 4 2 @ replicate 4 1,
          [Call_formmp 2 4, Call_formmp 2 5, Call_formmp 3 7, Call_formmp 3 8,
           Call_formmp 3 9, Call_formmp 3 10]) \<and>
   list_all (call_ranges_nonempty example_wrangler)
     [Call_formmp 2 4, Call_formmp 2 5, Call_formmp 3 7, Call_formmp 3 8,
      Call_formmp 3 9, Call_formmp 3 10] \<and>
   wrangler_ok example_wrangler \<and>
   listed_in_levels (w_tree example_wrangler) [0, 1, 3, 7, 11] example_all_boxes \<and>
   in_level (w_tree example_wrangler) 2 6 \<and>
   (\<exists>row. box_expansion example_wrangler
            (replicate 13 0 @ replicate 4 3 @ replicate 4 1 @ replicate 4 0 @ replicate 4 2
               @ replicate 4 1 @ replicate 4 2 @ replicate 4 1) 2 6 = Inr row \<and>
          list_all (\<lambda>c. c = 0) row) \<and>
   eval_direct example_kernels example_wrangler [4, 6] [0, 3, 4] [4, 6, 5, 4] example_weights
   = Inr (OutArr (replicate 3 0 @ replicate 3 4 @ replicate 4 0),
          [Call_direct 4 4, Call_direct 4 5]) \<and>
   list_all (call_ranges_nonempty example_wrangler) [Call_direct 4 4, Call_direct 4 5] \<and>
   form_locals example_kernels example_wrangler [0, 1, 3, 7, 11] example_all_boxes
     [0, 0, 0, 0, 0, 2, 2, 2, 2, 2, 2, 2] [6, 5] example_weights
   = Inr (replicate 13 0 @ replicate 4 1 @ replicate 24 0, [Call_formta 2 4 5]) \<and>
   list_all (call_ranges_nonempty example_wrangler) [Call_formta 2 4 5] \<and>
   eval_multipoles example_kernels example_wrangler [0, 0, 0, 2, 2] [4, 6] example_by_level
     example_mpoles
   = Inr (OutArr (replicate 3 0 @ replicate 3 2 @ replicate 4 0), [Call_mpeval 3 4 7]) \<and>
   list_all (call_ranges_nonempty example_wrangler) [Call_mpeval 3 4 7] \<and>
   eval_locals example_kernels example_wrangler [0, 0, 0, 2, 2] [4, 6] example_mpoles
   = Inr (OutArr (replicate 3 0 @ replicate 3 1 @ replicate 4 0), [Call_taeval 2 4]) \<and>
   list_all (call_ranges_nonempty example_wrangler) [Call_taeval 2 4]"
proof -
  have lv: "(2::nat) < nat (nlevels (w_tree example_wrangler))"
    by (simp add: example_nlevels)
  have il: "in_level (w_tree example_wrangler) 2 6"
    by (simp add: in_level_def example_wrangler_def example_tree_def)
  have c: "column (box_centers (w_tree example_wrangler)) 6 = Inr [7, 1]"
    by code_simp
  note inst = empty_ranges_no_op [where w = example_wrangler and k = example_kernels
      and src_ibox = 6 and tgt_ibox = 6 and src_weights = example_weights and lev = 2
      and level_start_ibox = 3 and mpoles_view = "\<lparr>v_start = 9, v_nrows = 4, v_rowlen = 4\<rparr>"
      and rscale = 1 and st = "(example_mpoles, [])"
      and ev = "\<lambda>src tgt zk kwargs. ([], None)" and tgt_pslice = "(3, 6)"
      and acc = "(None, None, [])" and contrib = "(None, [])" and itgt_box = 1
      and out = "(OutArr (replicate 10 0), [])" and nbr_starts = "[0, 3, 4]"
      and nbr_lists = "[4, 6, 5, 4]"
      and mpeval' = "\<lambda>rscale center expn ztarg zk. Inl ValueError"
      and taeval' = "\<lambda>rscale center expn ztarg zk. Inl ValueError"
      and exps = example_mpoles and isrc_level = 3
      and ssn = "\<lparr>csr_starts = [0, 1, 2], csr_lists = [7, 10]\<rparr>"
      and source_view = "(3, \<lparr>v_start = 9, v_nrows = 4, v_rowlen = 4\<rparr>)"
      and level_starts = "[0, 1, 3, 7, 11]" and boxes = example_all_boxes
      and src_lev = 2 and target_boxes = "[4, 6]"
      and starts = "[0, 0, 0, 0, 0, 2, 2, 2, 2, 2, 2, 2]" and lists' = "[6, 5]"
      and tgt_level_starts = "[0, 0, 0, 2, 2]" and by_level = example_by_level
      and mpoles = "replicate 13 0 @ replicate 4 3 @ replicate 4 1 @ replicate 4 0
            @ replicate 4 2 @ replicate 4 1 @ replicate 4 2 @ replicate 4 1"
      and calls_formmp = "[Call_formmp 2 4, Call_formmp 2 5, Call_formmp 3 7, Call_formmp 3 8,
           Call_formmp 3 9, Call_formmp 3 10]"
      and out_direct = "OutArr (replicate 3 0 @ replicate 3 4 @ replicate 4 0)"
      and calls_direct = "[Call_direct 4 4, Call_direct 4 5]"
      and local_exps = "replicate 13 0 @ replicate 4 1 @ replicate 24 0"
      and calls_formta = "[Call_formta 2 4 5]"
      and out_mpeval = "OutArr (replicate 3 0 @ replicate 3 2 @ replicate 4 0)"
      and calls_mpeval = "[Call_mpeval 3 4 7]"
      and out_taeval = "OutArr (replicate 3 0 @ replicate 3 1 @ replicate 4 0)"
      and calls_taeval = "[Call_taeval 2 4]"]
  note e = example_box_6_empty
  note p1 = inst [THEN conjunct1, THEN mp, OF e(1)]
  note p2 = inst [THEN conjunct2, THEN conjunct1, THEN mp, OF e(2)]
  note p3 = inst [THEN conjunct2, THEN conjunct2, THEN conjunct1, THEN mp,
      OF example_form_multipoles_run]
  note p4 = inst [THEN conjunct2, THEN conjunct2, THEN conjunct2, THEN conjunct1, THEN mp,
      OF example_eval_direct_run]
  note p5 = inst [THEN conjunct2, THEN conjunct2, THEN conjunct2, THEN conjunct2,
      THEN conjunct1, THEN mp, OF example_form_locals_run]
  note p6 = inst [THEN conjunct2, THEN conjunct2, THEN conjunct2, THEN conjunct2,
      THEN conjunct2, THEN conjunct1, THEN mp, OF example_eval_multipoles_run]
  note p7 = inst [THEN conjunct2, THEN conjunct2, THEN conjunct2, THEN conjunct2,
      THEN conjunct2, THEN conjunct2, THEN mp, OF example_eval_locals_run]
  note s1 = p1 [THEN conjunct1]
  note s2 = p1 [THEN conjunct2, THEN conjunct1]
  have s3: "form_locals_source example_kernels example_wrangler example_weights 2 6 6
      (None, []) = Inr (None, [])"
    using p1 [THEN conjunct2, THEN conjunct2] c by simp
  note s4 = p2 [THEN conjunct1]
  note s5 = p2 [THEN conjunct2, THEN conjunct1]
  note s6 = p2 [THEN conjunct2, THEN conjunct2]
  note t1 = p3 [THEN conjunct1]
  have z: "\<exists>row. box_expansion example_wrangler
            (replicate 13 0 @ replicate 4 3 @ replicate 4 1 @ replicate 4 0 @ replicate 4 2
               @ replicate 4 1 @ replicate 4 2 @ replicate 4 1) 2 6 = Inr row \<and>
          list_all (\<lambda>c. c = 0) row"
    using p3 [THEN conjunct2, THEN mp,
        OF conjI [OF example_wrangler_ok conjI [OF example_listed_in_levels
          conjI [OF lv conjI [OF il e(1)]]]]]
    by simp
  show ?thesis
    by (intro conjI e s1 s2 s3 s4 s5 s6 t1 p4 p5 p6 p7 z il example_wrangler_ok
        example_listed_in_levels example_form_multipoles_run example_eval_direct_run
        example_form_locals_run example_eval_multipoles_run example_eval_locals_run)
qed

end
